theory Spec2Isabelle
  imports Main "HOL-Library.Multiset"
begin

section \<open>Python values used by the generator\<close>

text \<open>
  The generator is a Python script.  Exceptions are values of \<open>py_error\<close>; a function that
  may raise returns \<open>py_error + 'a\<close> with \<open>Inl\<close> for the exception.  Text is a list of
  8-bit characters (code points below 256).
\<close>

datatype py_error =
    KeyError string
  | IndexError
  | AttributeError
  | NotImplementedError
  | ValueError
  | OSError
  | ReError string

text \<open>\<open>s.endswith(suffix)\<close>.\<close>

definition endswith :: "string \<Rightarrow> string \<Rightarrow> bool" where
  "endswith s suffix =
     (length suffix \<le> length s \<and> drop (length s - length suffix) s = suffix)"

text \<open>\<open>s.startswith(prefix)\<close>.\<close>

definition startswith :: "string \<Rightarrow> string \<Rightarrow> bool" where
  "startswith s pre = (take (length pre) s = pre)"

text \<open>\<open>sub in s\<close> for two strings: \<open>sub\<close> occurs in \<open>s\<close> as a contiguous substring.\<close>

fun str_contains :: "string \<Rightarrow> string \<Rightarrow> bool" where
  "str_contains [] sub = (sub = [])"
| "str_contains (c # cs) sub = (startswith (c # cs) sub \<or> str_contains cs sub)"

section \<open>TypeMapper: \<open>kotlin_to_jni_type\<close>\<close>

text \<open>The dictionary literal \<open>mapping\<close>, in source order.\<close>

definition mapping :: "(string \<times> string) list" where
  "mapping =
    [(''Int'', ''I''),
     (''Float'', ''F''),
     (''Double'', ''D''),
     (''Long'', ''J''),
     (''Boolean'', ''Z''),
     (''Byte'', ''B''),
     (''Short'', ''S''),
     (''Char'', ''C''),
     (''String'', ''Ljava/lang/String;''),
     (''Unit'', ''V'')]"

text \<open>The dictionary literal \<open>wrapper_mapping\<close>, in source order.\<close>

definition wrapper_mapping :: "(string \<times> string) list" where
  "wrapper_mapping =
    [(''I'', ''Ljava/lang/Integer;''),
     (''F'', ''Ljava/lang/Float;''),
     (''D'', ''Ljava/lang/Double;''),
     (''J'', ''Ljava/lang/Long;''),
     (''Z'', ''Ljava/lang/Boolean;''),
     (''B'', ''Ljava/lang/Byte;''),
     (''S'', ''Ljava/lang/Short;''),
     (''C'', ''Ljava/lang/Character;'')]"

text \<open>
  \<open>d[key]\<close> on a dictionary raises \<open>KeyError\<close> for a missing key; \<open>d.get(key)\<close> is
  \<open>map_of d key\<close>.
\<close>

definition subscript :: "(string \<times> 'v) list \<Rightarrow> string \<Rightarrow> py_error + 'v" where
  "subscript d key = (case map_of d key of None \<Rightarrow> Inl (KeyError key) | Some v \<Rightarrow> Inr v)"

text \<open>
  \<open>kotlin_to_jni_type(ktype, nullable)\<close>.  The result \<open>Inr None\<close> is the source's
  \<open>return None\<close>.  The tests \<open>if element_sig:\<close> and \<open>if not base_sig:\<close> are Python truth
  tests: \<open>None\<close> and the empty string are false.  \<open>ktype[:-5]\<close> drops the last five
  characters.
\<close>

function kotlin_to_jni_type :: "string \<Rightarrow> bool \<Rightarrow> py_error + string option" where
  "kotlin_to_jni_type ktype nullable =
     (if endswith ktype ''Array'' then
        (let element_type = take (length ktype - 5) ktype in
         case kotlin_to_jni_type element_type False of
           Inl e \<Rightarrow> Inl e
         | Inr None \<Rightarrow> Inr None
         | Inr (Some element_sig) \<Rightarrow>
             if element_sig \<noteq> [] then Inr (Some (''['' @ element_sig)) else Inr None)
      else
        (case map_of mapping ktype of
           None \<Rightarrow> Inr None
         | Some base_sig \<Rightarrow>
             if base_sig = [] then Inr None
             else if nullable \<and> str_contains ''IFDJZBSC'' base_sig then
               (case subscript wrapper_mapping base_sig of
                  Inl e \<Rightarrow> Inl e
                | Inr w \<Rightarrow> Inr (Some w))
             else Inr (Some base_sig)))"
  by pat_completeness auto
termination
  by (relation "measure (\<lambda>(ktype, nullable). length ktype)") (auto simp: endswith_def)

declare kotlin_to_jni_type.simps [simp del]


section \<open>More string operations\<close>

text \<open>
  \<open>c.isspace()\<close> for a character below 256; the regular expression class \<open>\s\<close> of a
  \<open>str\<close> pattern accepts the same characters.
\<close>

definition isspace :: "char \<Rightarrow> bool" where
  "isspace c =
     (let n = (of_char c :: nat)
      in (9 \<le> n \<and> n \<le> 13) \<or> (28 \<le> n \<and> n \<le> 32) \<or> n = 133 \<or> n = 160)"

text \<open>The class \<open>\w\<close> of a \<open>str\<close> pattern below 256: alphanumeric characters and the underscore.\<close>

definition isword :: "char \<Rightarrow> bool" where
  "isword c =
     (let n = (of_char c :: nat)
      in (48 \<le> n \<and> n \<le> 57) \<or> (65 \<le> n \<and> n \<le> 90) \<or> n = 95 \<or> (97 \<le> n \<and> n \<le> 122)
         \<or> n = 170 \<or> n = 178 \<or> n = 179 \<or> n = 181 \<or> n = 185 \<or> n = 186
         \<or> (188 \<le> n \<and> n \<le> 190) \<or> (192 \<le> n \<and> n \<le> 214) \<or> (216 \<le> n \<and> n \<le> 246)
         \<or> 248 \<le> n)"

text \<open>\<open>c.isupper()\<close> for a character below 256.\<close>

definition isupper :: "char \<Rightarrow> bool" where
  "isupper c =
     (let n = (of_char c :: nat)
      in (65 \<le> n \<and> n \<le> 90) \<or> (192 \<le> n \<and> n \<le> 214) \<or> (216 \<le> n \<and> n \<le> 222))"

text \<open>
  \<open>c.upper()\<close> for one character; the result is a string (the sharp s becomes two letters).
  The capitals of code points 181 and 255 lie above 255 and cannot be written in this
  alphabet: those two characters are left as they are.
\<close>

definition upper :: "char \<Rightarrow> string" where
  "upper c =
     (let n = (of_char c :: nat)
      in if (97 \<le> n \<and> n \<le> 122) \<or> (224 \<le> n \<and> n \<le> 246) \<or> (248 \<le> n \<and> n \<le> 254)
         then [char_of (n - 32)]
         else if n = 223 then ''SS''
         else [c])"

text \<open>\<open>s.strip()\<close>: whitespace removed at both ends.\<close>

definition strip :: "string \<Rightarrow> string" where
  "strip s = rev (dropWhile isspace (rev (dropWhile isspace s)))"

text \<open>\<open>s.split(sep)\<close> for a one-character separator: never the empty list.\<close>

fun split :: "char \<Rightarrow> string \<Rightarrow> string list" where
  "split sep [] = [[]]"
| "split sep (c # cs) =
     (if c = sep then [] # split sep cs
      else (case split sep cs of [] \<Rightarrow> [[c]] | w # ws \<Rightarrow> (c # w) # ws))"

text \<open>\<open>s.rfind(c)\<close> for one character: the highest index of \<open>c\<close>, or \<open>-1\<close>.\<close>

fun rfind :: "string \<Rightarrow> char \<Rightarrow> int" where
  "rfind [] ch = -1"
| "rfind (c # cs) ch =
     (let i = rfind cs ch in if 0 \<le> i then i + 1 else if c = ch then 0 else -1)"

text \<open>\<open>s.replace(a, b)\<close> for one-character \<open>a\<close> and \<open>b\<close>.\<close>

definition replace :: "char \<Rightarrow> char \<Rightarrow> string \<Rightarrow> string" where
  "replace a b s = map (\<lambda>c. if c = a then b else c) s"

text \<open>\<open>str(n)\<close> of a natural number, as an f-string prints \<open>len(...)\<close>.\<close>

definition digit :: "nat \<Rightarrow> char" where
  "digit d = char_of (48 + d)"

function str_nat :: "nat \<Rightarrow> string" where
  "str_nat n = (if n < 10 then [digit n] else str_nat (n div 10) @ [digit (n mod 10)])"
  by pat_completeness auto
termination
  by (relation "measure id") auto

declare str_nat.simps [simp del]

text \<open>Python's truth test on an optional string: \<open>None\<close> and \<open>""\<close> are false.\<close>

fun truthy :: "string option \<Rightarrow> bool" where
  "truthy None = False"
| "truthy (Some s) = (s \<noteq> [])"

section \<open>Regular expressions: the part of module \<open>re\<close> the generator uses\<close>

text \<open>
  A pattern is a syntax tree; \<open>re\<close> matches by backtracking, greedy repetitions first and
  the alternatives of \<open>|\<close> from left to right, and returns the first match it reaches.
\<close>

datatype citem =
    Ch char
  | Range char char
  | Space
  | Word

datatype cls =
    Pos "citem list"
  | Neg "citem list"

datatype regex =
    Eps
  | Atom cls
  | Cat regex regex
  | Alt regex regex
  | Repeat nat "nat option" regex
  | Group nat regex
  | BolM
  | WordB
  | NotBehind regex

text \<open>
  \<open>Repeat lo hi r\<close> is the greedy \<open>r{lo,hi}\<close>, with \<open>None\<close> for no upper bound;
  \<open>Group n r\<close> is capturing group \<open>n\<close>; \<open>BolM\<close> is \<open>^\<close> under \<open>re.MULTILINE\<close> (the only
  flag the generator passes); \<open>WordB\<close> is \<open>\b\<close>; \<open>NotBehind r\<close> is \<open>(?<!r)\<close>.
\<close>

definition chr :: "char \<Rightarrow> regex" where
  "chr c = Atom (Pos [Ch c])"

definition lit :: "string \<Rightarrow> regex" where
  "lit s = foldr (\<lambda>c r. Cat (chr c) r) s Eps"

definition seq :: "regex list \<Rightarrow> regex" where
  "seq rs = foldr Cat rs Eps"

fun alts :: "regex list \<Rightarrow> regex" where
  "alts [] = Eps"
| "alts [r] = r"
| "alts (r # rs) = Alt r (alts rs)"

definition star :: "regex \<Rightarrow> regex" where
  "star r = Repeat 0 None r"

definition plus :: "regex \<Rightarrow> regex" where
  "plus r = Repeat 1 None r"

definition opt :: "regex \<Rightarrow> regex" where
  "opt r = Repeat 0 (Some 1) r"

fun citem_ok :: "citem \<Rightarrow> char \<Rightarrow> bool" where
  "citem_ok (Ch a) c = (c = a)"
| "citem_ok (Range a b) c = ((of_char a :: nat) \<le> of_char c \<and> (of_char c :: nat) \<le> of_char b)"
| "citem_ok Space c = isspace c"
| "citem_ok Word c = isword c"

fun cls_ok :: "cls \<Rightarrow> char \<Rightarrow> bool" where
  "cls_ok (Pos items) c = list_ex (\<lambda>i. citem_ok i c) items"
| "cls_ok (Neg items) c = (\<not> list_ex (\<lambda>i. citem_ok i c) items)"

text \<open>
  The width of the text a pattern can match, least and greatest (\<open>None\<close>: unbounded), as the
  compiler of \<open>re\<close> computes it.
\<close>

fun getwidth :: "regex \<Rightarrow> nat \<times> nat option" where
  "getwidth Eps = (0, Some 0)"
| "getwidth (Atom c) = (1, Some 1)"
| "getwidth (Cat r1 r2) =
     (case (getwidth r1, getwidth r2) of
        ((l1, h1), (l2, h2)) \<Rightarrow>
          (l1 + l2, case (h1, h2) of (Some a, Some b) \<Rightarrow> Some (a + b) | _ \<Rightarrow> None))"
| "getwidth (Alt r1 r2) =
     (case (getwidth r1, getwidth r2) of
        ((l1, h1), (l2, h2)) \<Rightarrow>
          (min l1 l2, case (h1, h2) of (Some a, Some b) \<Rightarrow> Some (max a b) | _ \<Rightarrow> None))"
| "getwidth (Repeat lo hi r) =
     (case getwidth r of
        (l, h) \<Rightarrow>
          (lo * l,
           case (hi, h) of
             (Some n, Some b) \<Rightarrow> Some (n * b)
           | (None, Some b) \<Rightarrow> (if b = 0 then Some 0 else None)
           | (Some n, None) \<Rightarrow> (if n = 0 then Some 0 else None)
           | (None, None) \<Rightarrow> None))"
| "getwidth (Group n r) = getwidth r"
| "getwidth BolM = (0, Some 0)"
| "getwidth WordB = (0, Some 0)"
| "getwidth (NotBehind r) = (0, Some 0)"

text \<open>
  Compiling a pattern raises \<open>re.error\<close> when a look-behind assertion can match texts of
  different widths.
\<close>

fun lookbehind_fixed :: "regex \<Rightarrow> bool" where
  "lookbehind_fixed Eps = True"
| "lookbehind_fixed (Atom c) = True"
| "lookbehind_fixed (Cat r1 r2) = (lookbehind_fixed r1 \<and> lookbehind_fixed r2)"
| "lookbehind_fixed (Alt r1 r2) = (lookbehind_fixed r1 \<and> lookbehind_fixed r2)"
| "lookbehind_fixed (Repeat lo hi r) = lookbehind_fixed r"
| "lookbehind_fixed (Group n r) = lookbehind_fixed r"
| "lookbehind_fixed BolM = True"
| "lookbehind_fixed WordB = True"
| "lookbehind_fixed (NotBehind r) =
     (lookbehind_fixed r \<and> (case getwidth r of (l, h) \<Rightarrow> h = Some l))"

definition re_compile :: "regex \<Rightarrow> py_error + regex" where
  "re_compile r =
     (if lookbehind_fixed r then Inr r
      else Inl (ReError ''look-behind requires fixed-width pattern''))"

text \<open>
  A position in the subject: the text behind it (reversed), the text from it on, and the
  groups captured so far.  A match object is the position where the match ended.
\<close>

record mstate =
  behind :: string
  rest :: string
  groups :: "nat \<Rightarrow> string option"

text \<open>
  The matcher returns every way the pattern can match at a position, as the list of the
  positions where it can end, in the order in which backtracking reaches them: a greedy
  repetition tries one more round of its body before it stops, and \<open>|\<close> tries its left
  side first.  The head of the list is the match \<open>re\<close> returns.

  A round of a repetition beyond the required ones has to consume a character.  The counter
  \<open>fuel\<close> starts at the number of required rounds plus the number of characters left,
  which bounds the rounds there can be.
\<close>

definition advances :: "nat \<Rightarrow> mstate \<Rightarrow> mstate \<Rightarrow> bool" where
  "advances lo st st' = (0 < lo \<or> length (rest st') < length (rest st))"

primrec repeat ::
  "nat \<Rightarrow> nat \<Rightarrow> nat option \<Rightarrow> (mstate \<Rightarrow> mstate list) \<Rightarrow> mstate \<Rightarrow> mstate list" where
  "repeat 0 lo hi body st = (if lo = 0 then [st] else [])"
| "repeat (Suc fuel) lo hi body st =
     (if hi = Some 0 then [st]
      else concat (map (repeat fuel (lo - 1) (map_option (\<lambda>h. h - 1) hi) body)
                       (filter (advances lo st) (body st)))
           @ (if lo = 0 then [st] else []))"

definition at_word :: "string \<Rightarrow> bool" where
  "at_word s = (case s of [] \<Rightarrow> False | c # _ \<Rightarrow> isword c)"

text \<open>The text a group captured: what lies between the position \<open>st\<close> and the later \<open>st'\<close>.\<close>

definition capture :: "nat \<Rightarrow> mstate \<Rightarrow> mstate \<Rightarrow> mstate" where
  "capture n st st' =
     st'\<lparr>groups := (groups st')(n \<mapsto> take (length (rest st) - length (rest st')) (rest st))\<rparr>"

definition ends_at :: "mstate \<Rightarrow> mstate \<Rightarrow> bool" where
  "ends_at st st' = (length (rest st') = length (rest st))"

primrec rmatch :: "regex \<Rightarrow> mstate \<Rightarrow> mstate list" where
  "rmatch Eps st = [st]"
| "rmatch (Atom cl) st =
     (case rest st of
        [] \<Rightarrow> []
      | c # cs \<Rightarrow> if cls_ok cl c then [st\<lparr>behind := c # behind st, rest := cs\<rparr>] else [])"
| "rmatch (Cat r1 r2) st = concat (map (rmatch r2) (rmatch r1 st))"
| "rmatch (Alt r1 r2) st = rmatch r1 st @ rmatch r2 st"
| "rmatch (Repeat lo hi r) st = repeat (lo + length (rest st)) lo hi (rmatch r) st"
| "rmatch (Group n r) st = map (capture n st) (rmatch r st)"
| "rmatch BolM st =
     (case behind st of
        [] \<Rightarrow> [st]
      | c # _ \<Rightarrow> if c = CHR 0x0A then [st] else [])"
| "rmatch WordB st = (if at_word (behind st) \<noteq> at_word (rest st) then [st] else [])"
| "rmatch (NotBehind r) st =
     (let w = fst (getwidth r)
      in if length (behind st) < w then [st]
         else
           (case filter (ends_at st)
                   (rmatch r (st\<lparr>behind := drop w (behind st),
                                 rest := rev (take w (behind st)) @ rest st\<rparr>)) of
              [] \<Rightarrow> [st]
            | m # _ \<Rightarrow> []))"

text \<open>
  Searching: the leftmost position where the pattern matches, the groups empty at the start
  of each attempt.
\<close>

definition match_at :: "regex \<Rightarrow> string \<Rightarrow> string \<Rightarrow> mstate option" where
  "match_at r bef rst =
     (case rmatch r \<lparr>behind = bef, rest = rst, groups = Map.empty\<rparr> of
        [] \<Rightarrow> None
      | m # _ \<Rightarrow> Some m)"

fun search_from :: "regex \<Rightarrow> string \<Rightarrow> string \<Rightarrow> mstate option" where
  "search_from r bef [] = match_at r bef []"
| "search_from r bef (c # cs) =
     (case match_at r bef (c # cs) of
        Some m \<Rightarrow> Some m
      | None \<Rightarrow> search_from r (c # bef) cs)"

text \<open>
  All matches from left to right, each search starting where the last match ended.  Every
  pattern the generator iterates over contains a literal word, so no match is empty; after
  an empty match the search moves on by one character.
\<close>

fun finditer_from :: "regex \<Rightarrow> string \<Rightarrow> string \<Rightarrow> mstate list" where
  "finditer_from r bef rst =
     (case search_from r bef rst of
        None \<Rightarrow> []
      | Some m \<Rightarrow>
          m # (if length (rest m) < length rst then finditer_from r (behind m) (rest m)
               else (case rst of [] \<Rightarrow> [] | c # cs \<Rightarrow> finditer_from r (c # bef) cs)))"

declare finditer_from.simps [simp del]

text \<open>\<open>re.search(pattern, text)\<close> and \<open>re.finditer(pattern, text, re.MULTILINE)\<close>.\<close>

definition re_search :: "regex \<Rightarrow> string \<Rightarrow> py_error + mstate option" where
  "re_search pattern text =
     (case re_compile pattern of Inl e \<Rightarrow> Inl e | Inr p \<Rightarrow> Inr (search_from p [] text))"

definition re_finditer :: "regex \<Rightarrow> string \<Rightarrow> py_error + mstate list" where
  "re_finditer pattern text =
     (case re_compile pattern of Inl e \<Rightarrow> Inl e | Inr p \<Rightarrow> Inr (finditer_from p [] text))"

text \<open>A pattern sets group \<open>n\<close> when every match of it has captured the group.\<close>

definition sets_group :: "nat \<Rightarrow> regex \<Rightarrow> bool" where
  "sets_group n r = (\<forall>st m. m \<in> set (rmatch r st) \<longrightarrow> groups m n \<noteq> None)"

text \<open>A pattern consumes text when none of its matches is empty.\<close>

definition consumes :: "regex \<Rightarrow> bool" where
  "consumes r = (\<forall>st m. m \<in> set (rmatch r st) \<longrightarrow> length (rest m) < length (rest st))"

section \<open>The patterns of the generator\<close>

abbreviation sp :: regex where
  "sp \<equiv> Atom (Pos [Space])"

abbreviation wd :: regex where
  "wd \<equiv> Atom (Pos [Word])"

text \<open>\<^verbatim>\<open>package\s+([a-zA-Z0-9_.]+)\<close>\<close>

definition package_pattern :: regex where
  "package_pattern =
     seq [lit ''package'', plus sp,
          Group 1 (plus (Atom (Pos [Range CHR ''a'' CHR ''z'', Range CHR ''A'' CHR ''Z'',
                                    Range CHR ''0'' CHR ''9'', Ch CHR ''_'', Ch CHR ''.''])))]"

text \<open>
  \<^verbatim>\<open>(?:^|\n)\s*(?:(?:public|private|internal|protected)\s+)?(?:class|object)\s+(\w+)\<close>
\<close>

definition class_pattern1 :: regex where
  "class_pattern1 =
     seq [Alt BolM (chr (CHR 0x0A)), star sp,
          opt (seq [alts [lit ''public'', lit ''private'', lit ''internal'', lit ''protected''],
                    plus sp]),
          alts [lit ''class'', lit ''object''], plus sp,
          Group 1 (plus wd)]"

text \<open>
  \<^verbatim>\<open>(?:^|\n)\s*(?:(?:abstract|final|open|sealed|data|inner)\s+)*(?:class|object)\s+(\w+)\<close>
\<close>

definition class_pattern2 :: regex where
  "class_pattern2 =
     seq [Alt BolM (chr (CHR 0x0A)), star sp,
          star (seq [alts [lit ''abstract'', lit ''final'', lit ''open'', lit ''sealed'',
                           lit ''data'', lit ''inner''],
                     plus sp]),
          alts [lit ''class'', lit ''object''], plus sp,
          Group 1 (plus wd)]"

text \<open>\<^verbatim>\<open>(?<!@\w{0,20})\b(?:class|object)\s+(\w+)\<close>\<close>

definition class_pattern3 :: regex where
  "class_pattern3 =
     seq [NotBehind (seq [chr CHR ''@'', Repeat 0 (Some 20) wd]), WordB,
          alts [lit ''class'', lit ''object''], plus sp,
          Group 1 (plus wd)]"

definition class_patterns :: "regex list" where
  "class_patterns = [class_pattern1, class_pattern2, class_pattern3]"

text \<open>
  \<^verbatim>\<open>(?:@JvmStatic\s*)?@NativeExport\s*fun\s+(?P<name>\w+)\s*\((?P<params>[^)]*)\)\s*(?::\s*(?P<ret>[^{\s]+))?\<close>
  with the groups \<open>name\<close>, \<open>params\<close> and \<open>ret\<close> numbered 1, 2 and 3.
\<close>

definition method_pattern :: regex where
  "method_pattern =
     seq [opt (seq [lit ''@JvmStatic'', star sp]),
          lit ''@NativeExport'', star sp, lit ''fun'', plus sp,
          Group 1 (plus wd), star sp,
          chr CHR ''('', Group 2 (star (Atom (Neg [Ch CHR '')'']))), chr CHR '')'', star sp,
          opt (seq [chr CHR '':'', star sp, Group 3 (plus (Atom (Neg [Ch CHR ''{'', Space])))])]"

section \<open>Paths and the file system\<close>

text \<open>
  A \<open>pathlib\<close> path of the POSIX flavour: the root (\<open>""\<close>, \<open>"/"\<close> or \<open>"//"\<close>) and the
  components.  Two paths are equal when both agree; the constructor drops empty components
  and the component \<open>"."\<close>, and keeps \<open>".."\<close>.
\<close>

datatype path = PurePath (root: string) (parts: "string list")

definition Path :: "string \<Rightarrow> path" where
  "Path s =
     PurePath
       (if startswith s ''//'' \<and> \<not> startswith s ''///'' then ''//''
        else if startswith s ''/'' then ''/'' else [])
       (filter (\<lambda>x. x \<noteq> [] \<and> x \<noteq> ''.'') (split CHR ''/'' s))"

definition basename :: "path \<Rightarrow> string" where
  "basename p = (case parts p of [] \<Rightarrow> [] | x # xs \<Rightarrow> last (x # xs))"

definition suffix :: "path \<Rightarrow> string" where
  "suffix p =
     (let i = rfind (basename p) CHR ''.''
      in if 0 < i \<and> i < int (length (basename p)) - 1 then drop (nat i) (basename p) else [])"

definition stem :: "path \<Rightarrow> string" where
  "stem p =
     (let i = rfind (basename p) CHR ''.''
      in if 0 < i \<and> i < int (length (basename p)) - 1 then take (nat i) (basename p) else basename p)"

text \<open>
  What one run of the tool sees of the world.  The file system through \<open>pathlib\<close>:
  \<open>rglob_kt p\<close> is \<open>p.rglob("*.kt")\<close>; \<open>glob pat\<close> is \<open>Path(".").glob(pat)\<close> run to its
  end, \<open>Inl\<close> when it raises (\<open>ValueError\<close> for a pattern it does not accept,
  \<open>NotImplementedError\<close> for a pattern that is not relative); \<open>read_text\<close> is \<open>None\<close>
  when reading raises; \<open>open_w p\<close> tells whether \<open>p.open('w')\<close> succeeds, which it does
  not when the directory is missing or the file cannot be written.  The field \<open>inode\<close>
  gives the file a path leads to, so that two spellings of one file can be told from two
  files; the tool never asks for it.  The field \<open>hash_rank\<close> stands for the hashes of this
  process: the place a path takes when a set of paths is listed.  Python leaves the order
  of a set open; for paths it follows the hash of their strings, which the interpreter
  salts anew in each process.
\<close>

record env =
  is_file :: "path \<Rightarrow> bool"
  is_dir :: "path \<Rightarrow> bool"
  rglob_kt :: "path \<Rightarrow> path list"
  glob :: "string \<Rightarrow> py_error + path list"
  read_text :: "path \<Rightarrow> string option"
  open_w :: "path \<Rightarrow> bool"
  inode :: "path \<Rightarrow> nat option"
  hash_rank :: "path \<Rightarrow> nat"

text \<open>The elements of a list in the order in which they first occur.\<close>

definition first_seen :: "'a list \<Rightarrow> 'a list" where
  "first_seen xs = rev (remdups (rev xs))"

section \<open>SourceScanner: \<open>find_kotlin_files\<close>\<close>

text \<open>
  The body of the loop over \<open>input_paths\<close>: the paths one input adds, or the exception
  that \<open>Path(".").glob(input_path)\<close> raises.
\<close>

definition resolve_input :: "env \<Rightarrow> string \<Rightarrow> py_error + path list" where
  "resolve_input e input_path =
     (let path = Path input_path
      in if is_file e path \<and> suffix path = ''.kt'' then Inr [path]
         else if is_dir e path then Inr (rglob_kt e path)
         else glob e input_path)"

fun collect :: "env \<Rightarrow> string list \<Rightarrow> path list \<Rightarrow> py_error + path list" where
  "collect e [] kotlin_files = Inr kotlin_files"
| "collect e (input_path # input_paths) kotlin_files =
     (case resolve_input e input_path of
        Inl err \<Rightarrow> Inl err
      | Inr found \<Rightarrow> collect e input_paths (kotlin_files @ found))"

text \<open>
  \<open>list(set(kotlin_files))\<close>: each path once, in the order of the ranks of this process;
  paths of equal rank keep the order of their first insertion.
\<close>

definition find_kotlin_files :: "env \<Rightarrow> string list \<Rightarrow> py_error + path list" where
  "find_kotlin_files e input_paths =
     (case collect e input_paths [] of
        Inl err \<Rightarrow> Inl err
      | Inr kotlin_files \<Rightarrow> Inr (sort_key (hash_rank e) (first_seen kotlin_files)))"

section \<open>Extractor\<close>

subsection \<open>\<open>parse_kotlin_type\<close>\<close>

definition parse_kotlin_type :: "string \<Rightarrow> string \<times> bool" where
  "parse_kotlin_type type_str =
     (let s = strip type_str; is_nullable = endswith s ''?''
      in (if is_nullable then butlast s else s, is_nullable))"

subsection \<open>\<open>extract_package_and_class\<close>\<close>

text \<open>
  The inner loop over the matches of one class pattern: the first candidate that is not
  taken for the annotation.  Group 1 takes part in every match of the three patterns; a
  match without it would make \<open>candidate.startswith\<close> raise.
\<close>

fun first_candidate :: "mstate list \<Rightarrow> py_error + string option" where
  "first_candidate [] = Inr None"
| "first_candidate (m # ms) =
     (case groups m 1 of
        None \<Rightarrow> Inl AttributeError
      | Some candidate \<Rightarrow>
          if candidate \<noteq> ''NativeExport'' \<and> \<not> startswith candidate ''Native''
          then Inr (Some candidate)
          else first_candidate ms)"

text \<open>
  The outer loop over \<open>class_patterns\<close>.  \<open>re.finditer\<close> compiles the pattern when it is
  called, so a pattern is compiled only when the patterns before it gave no class name.
\<close>

fun class_loop :: "regex list \<Rightarrow> string \<Rightarrow> py_error + string option" where
  "class_loop [] file_content = Inr None"
| "class_loop (pattern # patterns) file_content =
     (case re_finditer pattern file_content of
        Inl err \<Rightarrow> Inl err
      | Inr class_matches \<Rightarrow>
          (case first_candidate class_matches of
             Inl err \<Rightarrow> Inl err
           | Inr class_name \<Rightarrow>
               if truthy class_name then Inr class_name else class_loop patterns file_content))"

text \<open>
  The fallback: the class name from the file name, its first character in upper case.
  \<open>class_name[0]\<close> raises \<open>IndexError\<close> on an empty stem.
\<close>

definition filename_class :: "path \<Rightarrow> py_error + string option" where
  "filename_class file_path =
     (case stem file_path of
        [] \<Rightarrow> Inl IndexError
      | c # cs \<Rightarrow> if \<not> isupper c then Inr (Some (upper c @ cs)) else Inr (Some (c # cs)))"

definition extract_package_and_class :: "string \<Rightarrow> path \<Rightarrow> py_error + string option" where
  "extract_package_and_class file_content file_path =
     (case re_search package_pattern file_content of
        Inl err \<Rightarrow> Inl err
      | Inr package_match \<Rightarrow>
          (let package_name = (case package_match of None \<Rightarrow> None | Some m \<Rightarrow> groups m 1)
           in case class_loop class_patterns file_content of
                Inl err \<Rightarrow> Inl err
              | Inr found \<Rightarrow>
                  (case (if truthy found then Inr found else filename_class file_path) of
                     Inl err \<Rightarrow> Inl err
                   | Inr class_name \<Rightarrow>
                       (case (package_name, class_name) of
                          (Some p, Some c) \<Rightarrow>
                            if p \<noteq> [] \<and> c \<noteq> []
                            then Inr (Some (replace CHR ''.'' CHR ''/'' p @ ''/'' @ c))
                            else if c \<noteq> [] then Inr (Some c) else Inr None
                        | (None, Some c) \<Rightarrow> if c \<noteq> [] then Inr (Some c) else Inr None
                        | (_, None) \<Rightarrow> Inr None))))"

subsection \<open>\<open>extract_native_exports\<close>\<close>

text \<open>
  The lines the tool prints as warnings and errors, one constructor for each message.  The
  informational lines printed under \<open>--verbose\<close> change no result and are left out, and
  with them the flag.
\<close>

datatype diag =
    CouldNotRead path
  | NoClassName path
  | InvalidParameter string string
  | UnknownParameterType string string
  | UnknownReturnType string string
  | NoKotlinFiles
  | NoNativeExports
  | Generated path nat nat

type_synonym jni_method = "string \<times> string"

type_synonym class_methods = "(string \<times> jni_method list) list"

text \<open>
  The loop over the parameters of one function.  The result \<open>None\<close> is
  \<open>param_parsing_success = False\<close>: the loop has stopped at the first parameter that has no
  colon or whose type does not map.
\<close>

fun param_loop ::
  "string \<Rightarrow> string list \<Rightarrow> string list \<Rightarrow> py_error + (string list option \<times> diag list)" where
  "param_loop fname [] sig_parts = Inr (Some sig_parts, [])"
| "param_loop fname (p # ps) sig_parts =
     (let param = strip p
      in if CHR '':'' \<notin> set param then Inr (None, [InvalidParameter fname param])
         else
           (let colon_idx = rfind param CHR '':'';
                param_type = strip (drop (nat (colon_idx + 1)) param)
            in case parse_kotlin_type param_type of
                 (type_name, is_nullable) \<Rightarrow>
                   (case kotlin_to_jni_type type_name is_nullable of
                      Inl err \<Rightarrow> Inl err
                    | Inr None \<Rightarrow> Inr (None, [UnknownParameterType fname param_type])
                    | Inr (Some sig) \<Rightarrow>
                        if sig = [] then Inr (None, [UnknownParameterType fname param_type])
                        else param_loop fname ps (sig_parts @ [sig]))))"

text \<open>
  The body of the loop over the matches of \<open>method_pattern\<close> in one file: the method the
  match gives, if its types map, and what is printed.  The groups \<open>name\<close> and \<open>params\<close>
  take part in every match of the pattern.
\<close>

definition process_match :: "mstate \<Rightarrow> py_error + (jni_method option \<times> diag list)" where
  "process_match m =
     (case (groups m 1, groups m 2) of
        (Some fname, Some raw_params) \<Rightarrow>
          (let params = strip raw_params;
               ret = (case groups m 3 of None \<Rightarrow> ''Unit'' | Some r \<Rightarrow> if r = [] then ''Unit'' else r)
           in case (if params \<noteq> [] then param_loop fname (split CHR '','' params) []
                    else Inr (Some [], [])) of
                Inl err \<Rightarrow> Inl err
              | Inr (None, out) \<Rightarrow> Inr (None, out)
              | Inr (Some sig_parts, out) \<Rightarrow>
                  (case parse_kotlin_type ret of
                     (ret_type, ret_nullable) \<Rightarrow>
                       (case kotlin_to_jni_type ret_type ret_nullable of
                          Inl err \<Rightarrow> Inl err
                        | Inr None \<Rightarrow> Inr (None, out @ [UnknownReturnType fname ret])
                        | Inr (Some ret_sig) \<Rightarrow>
                            if ret_sig = [] then Inr (None, out @ [UnknownReturnType fname ret])
                            else Inr (Some (fname, ''('' @ concat sig_parts @ '')'' @ ret_sig),
                                      out))))
      | _ \<Rightarrow> Inl AttributeError)"

fun methods_loop ::
  "mstate list \<Rightarrow> jni_method list \<Rightarrow> diag list \<Rightarrow> py_error + (jni_method list \<times> diag list)" where
  "methods_loop [] methods_found out = Inr (methods_found, out)"
| "methods_loop (m # ms) methods_found out =
     (case process_match m of
        Inl err \<Rightarrow> Inl err
      | Inr (None, printed) \<Rightarrow> methods_loop ms methods_found (out @ printed)
      | Inr (Some method, printed) \<Rightarrow> methods_loop ms (methods_found @ [method]) (out @ printed))"

text \<open>
  \<open>class_methods[class_name].extend(methods_found)\<close> on the \<open>defaultdict\<close>, which keeps its
  keys in the order of their first insertion.
\<close>

definition dict_extend :: "class_methods \<Rightarrow> string \<Rightarrow> jni_method list \<Rightarrow> class_methods" where
  "dict_extend class_methods class_name methods_found =
     (if class_name \<in> set (map fst class_methods)
      then map (\<lambda>(k, v). if k = class_name then (k, v @ methods_found) else (k, v)) class_methods
      else class_methods @ [(class_name, methods_found)])"

text \<open>The loop over the files, with the compiled \<open>method_pattern\<close>.\<close>

fun files_loop ::
  "env \<Rightarrow> regex \<Rightarrow> path list \<Rightarrow> class_methods \<Rightarrow> diag list \<Rightarrow>
   py_error + (class_methods \<times> diag list)" where
  "files_loop e pat [] class_methods out = Inr (class_methods, out)"
| "files_loop e pat (kt_file # kt_files) class_methods out =
     (case read_text e kt_file of
        None \<Rightarrow> files_loop e pat kt_files class_methods (out @ [CouldNotRead kt_file])
      | Some text \<Rightarrow>
          (case extract_package_and_class text kt_file of
             Inl err \<Rightarrow> Inl err
           | Inr None \<Rightarrow> files_loop e pat kt_files class_methods (out @ [NoClassName kt_file])
           | Inr (Some class_name) \<Rightarrow>
               if class_name = []
               then files_loop e pat kt_files class_methods (out @ [NoClassName kt_file])
               else
                 (case methods_loop (finditer_from pat [] text) [] [] of
                    Inl err \<Rightarrow> Inl err
                  | Inr (methods_found, printed) \<Rightarrow>
                      files_loop e pat kt_files
                        (if methods_found \<noteq> [] then dict_extend class_methods class_name methods_found
                         else class_methods)
                        (out @ printed))))"

definition extract_native_exports ::
  "env \<Rightarrow> path list \<Rightarrow> py_error + (class_methods \<times> diag list)" where
  "extract_native_exports e kotlin_files =
     (case re_compile method_pattern of
        Inl err \<Rightarrow> Inl err
      | Inr pat \<Rightarrow> files_loop e pat kotlin_files [] [])"

subsection \<open>The grouping the extractor is to produce\<close>

text \<open>
  What the loop body makes of one match: the function it adds to the list, if any, and the
  lines it prints.
\<close>

definition method_of :: "mstate \<Rightarrow> jni_method list" where
  "method_of m = (case process_match m of Inr (Some method, printed) \<Rightarrow> [method] | _ \<Rightarrow> [])"

definition printed_by :: "mstate \<Rightarrow> diag list" where
  "printed_by m = (case process_match m of Inr (r, printed) \<Rightarrow> printed | _ \<Rightarrow> [])"

text \<open>
  What the body of the loop over the files makes of one file: the owning class with the
  functions found, if the file can be read and has a class, and the lines printed.
\<close>

definition scan_file ::
  "env \<Rightarrow> path \<Rightarrow> py_error + ((string \<times> jni_method list) option \<times> diag list)" where
  "scan_file e kt_file =
     (case read_text e kt_file of
        None \<Rightarrow> Inr (None, [CouldNotRead kt_file])
      | Some text \<Rightarrow>
          (case extract_package_and_class text kt_file of
             Inl err \<Rightarrow> Inl err
           | Inr None \<Rightarrow> Inr (None, [NoClassName kt_file])
           | Inr (Some class_name) \<Rightarrow>
               if class_name = [] then Inr (None, [NoClassName kt_file])
               else Inr (Some (class_name,
                               concat (map method_of (finditer_from method_pattern [] text))),
                         concat (map printed_by (finditer_from method_pattern [] text)))))"

definition scanned :: "env \<Rightarrow> path list \<Rightarrow> (string \<times> jni_method list) list" where
  "scanned e kotlin_files =
     concat (map (\<lambda>f. case scan_file e f of Inr (Some x, printed) \<Rightarrow> [x] | _ \<Rightarrow> []) kotlin_files)"

definition printed_in :: "env \<Rightarrow> path list \<Rightarrow> diag list" where
  "printed_in e kotlin_files =
     concat (map (\<lambda>f. case scan_file e f of Inr (x, printed) \<Rightarrow> printed | _ \<Rightarrow> []) kotlin_files)"

text \<open>
  The grouping as the specification words it, from the owning class and the functions of
  each file in scan order: one binding for each distinct class that owns a function, the
  classes in the order in which they are first met, and in each binding the functions of
  all files of that class in the order of discovery.
\<close>

definition grouping :: "(string \<times> jni_method list) list \<Rightarrow> class_methods" where
  "grouping per_file =
     map (\<lambda>c. (c, concat (map snd (filter (\<lambda>(c', ms). c' = c) per_file))))
         (first_seen (map fst (filter (\<lambda>(c, ms). ms \<noteq> []) per_file)))"

section \<open>CodeEmitter: \<open>generate_cpp_file\<close>\<close>

text \<open>
  The output file is the text written so far, and \<open>f.write(s)\<close> appends to it;
  \<open>write_all\<close> is a run of writes one after the other.
\<close>

fun write_all :: "string \<Rightarrow> string list \<Rightarrow> string" where
  "write_all f [] = f"
| "write_all f (s # ss) = write_all (f @ s) ss"

text \<open>The inner loop: two writes for each method of the class.\<close>

fun write_methods :: "string \<Rightarrow> jni_method list \<Rightarrow> string \<Rightarrow> string" where
  "write_methods class_name [] f = f"
| "write_methods class_name ((fname, sig) # methods) f =
     write_methods class_name methods
       (write_all f
          [''        helper->getStaticMethodID(\"'' @ class_name @ ''\", \"'' @ fname @ ''\",\<newline>'',
           ''                                  \"'' @ sig @ ''\");\<newline>\<newline>''])"

text \<open>The outer loop over \<open>class_methods.items()\<close>.\<close>

fun write_classes :: "class_methods \<Rightarrow> string \<Rightarrow> string" where
  "write_classes [] f = f"
| "write_classes ((class_name, methods) # items) f =
     write_classes items
       (write_all
          (write_methods class_name methods
             (write_all f
                [''    // Load methods for '' @ class_name @ ''\<newline>'',
                 ''    {\<newline>'',
                 ''        auto clazzRef = helper->findClass(\"'' @ class_name @ ''\");\<newline>'',
                 ''        if (!clazzRef)\<newline>'',
                 ''        {\<newline>'',
                 ''            SATURN_ERROR(\"Failed to find '' @ last (split CHR ''/'' class_name)
                   @ '' class\");\<newline>'',
                 ''            return JNI_ERR;\<newline>'',
                 ''        }\<newline>\<newline>'',
                 ''        helper->createGlobalRef(clazzRef);\<newline>\<newline>'']))
          [''    }\<newline>\<newline>''])"

text \<open>The text \<open>generate_cpp_file\<close> leaves in the file at \<open>output_path\<close>.\<close>

definition generate_cpp_file :: "class_methods \<Rightarrow> string \<Rightarrow> string" where
  "generate_cpp_file class_methods helper_class =
     (let total_methods = sum_list (map (\<lambda>(c, methods). length methods) class_methods);
          f = write_all []
                [''// Auto-generated JNI loader code\<newline>'',
                 ''// Generated by jni_generator.py\<newline>'',
                 ''// Found '' @ str_nat (length class_methods) @ '' classes with ''
                   @ str_nat total_methods @ '' methods\<newline>\<newline>'',
                 ''JNIEXPORT jint JNI_OnLoad(JavaVM* vm, void* reserved)\<newline>'',
                 ''{\<newline>'',
                 ''    saturn::tools::Logger::initialize();\<newline>\<newline>'',
                 ''    auto helper = '' @ helper_class @ ''::getInstance();\<newline>\<newline>'',
                 ''    helper->initialize(vm);\<newline>\<newline>''];
          f = write_classes class_methods f
      in write_all f
           [''    return JNI_VERSION_1_6;\<newline>'',
            ''}\<newline>'',
            ''\<newline>JNIEXPORT void JNICALL JNI_OnUnload(JavaVM* vm, void* /*reserved*/)\<newline>'',
            ''{\<newline>'',
            ''    saturn::platform::agdk::JNIHelper::getInstance()->shutdown();\<newline>\<newline>'',
            ''    saturn::tools::Logger::shutdown();\<newline>'',
            ''}\<newline>''])"

subsection \<open>The emitted load entry point as a program\<close>

text \<open>
  The short name of a class as the specification words it: what follows the last slash of
  the full name.
\<close>

definition short_name :: "string \<Rightarrow> string" where
  "short_name class_name = rev (takeWhile (\<lambda>c. c \<noteq> CHR ''/'') (rev class_name))"

text \<open>
  The statements the emitter writes into the body of \<open>JNI_OnLoad\<close> after the helper is
  initialised, with the C++ text of each: the scoped block of a class under its comment,
  the look-up \<^verbatim>\<open>auto clazzRef = helper->findClass("c");\<close>, the test \<^verbatim>\<open>if (!clazzRef) { ... }\<close>,
  the log call \<^verbatim>\<open>SATURN_ERROR("...");\<close>, \<^verbatim>\<open>return ...;\<close>,
  \<^verbatim>\<open>helper->createGlobalRef(clazzRef);\<close> and
  \<^verbatim>\<open>helper->getStaticMethodID("c", "f", "sig");\<close>.
\<close>

datatype sentinel = JNI_ERR | JNI_VERSION_1_6

datatype stmt =
    Block string "stmt list"
  | FindClass string
  | IfNull "stmt list"
  | LogError string
  | Return sentinel
  | CreateGlobalRef
  | GetStaticMethodID string string string

fun show_sentinel :: "sentinel \<Rightarrow> string" where
  "show_sentinel JNI_ERR = ''JNI_ERR''"
| "show_sentinel JNI_VERSION_1_6 = ''JNI_VERSION_1_6''"

text \<open>The text of a statement at an indentation, laid out as the emitter lays it out.\<close>

fun show_stmt :: "string \<Rightarrow> stmt \<Rightarrow> string" where
  "show_stmt ind (Block class_name body) =
     ind @ ''// Load methods for '' @ class_name @ ''\<newline>''
     @ ind @ ''{\<newline>''
     @ concat (map (show_stmt (ind @ ''    '')) body)
     @ ind @ ''}\<newline>\<newline>''"
| "show_stmt ind (FindClass class_name) =
     ind @ ''auto clazzRef = helper->findClass(\"'' @ class_name @ ''\");\<newline>''"
| "show_stmt ind (IfNull body) =
     ind @ ''if (!clazzRef)\<newline>''
     @ ind @ ''{\<newline>''
     @ concat (map (show_stmt (ind @ ''    '')) body)
     @ ind @ ''}\<newline>\<newline>''"
| "show_stmt ind (LogError msg) = ind @ ''SATURN_ERROR(\"'' @ msg @ ''\");\<newline>''"
| "show_stmt ind (Return v) = ind @ ''return '' @ show_sentinel v @ '';\<newline>''"
| "show_stmt ind CreateGlobalRef = ind @ ''helper->createGlobalRef(clazzRef);\<newline>\<newline>''"
| "show_stmt ind (GetStaticMethodID class_name fname sig) =
     ind @ ''helper->getStaticMethodID(\"'' @ class_name @ ''\", \"'' @ fname @ ''\",\<newline>''
     @ ''                                  \"'' @ sig @ ''\");\<newline>\<newline>''"

text \<open>
  What running these statements does.  The runtime is \<open>resolves\<close>: the classes for which
  \<open>findClass\<close> returns a reference.  The machine holds the value of \<open>clazzRef\<close>, the calls
  made so far, and the value returned, once a \<open>return\<close> has been run; after a \<open>return\<close>
  nothing more is run.
\<close>

datatype event =
    FindClassCall string
  | ErrorLogged string
  | GlobalRefCreated "string option"
  | MethodIDResolved string string string

record machine =
  clazzRef :: "string option"
  calls :: "event list"
  returned :: "sentinel option"

fun exec :: "(string \<Rightarrow> bool) \<Rightarrow> stmt \<Rightarrow> machine \<Rightarrow> machine"
  and execs :: "(string \<Rightarrow> bool) \<Rightarrow> stmt list \<Rightarrow> machine \<Rightarrow> machine" where
  "exec resolves (Block class_name body) m = execs resolves body m"
| "exec resolves (FindClass class_name) m =
     m\<lparr>clazzRef := (if resolves class_name then Some class_name else None),
       calls := calls m @ [FindClassCall class_name]\<rparr>"
| "exec resolves (IfNull body) m = (if clazzRef m = None then execs resolves body m else m)"
| "exec resolves (LogError msg) m = m\<lparr>calls := calls m @ [ErrorLogged msg]\<rparr>"
| "exec resolves (Return v) m = m\<lparr>returned := Some v\<rparr>"
| "exec resolves CreateGlobalRef m = m\<lparr>calls := calls m @ [GlobalRefCreated (clazzRef m)]\<rparr>"
| "exec resolves (GetStaticMethodID class_name fname sig) m =
     m\<lparr>calls := calls m @ [MethodIDResolved class_name fname sig]\<rparr>"
| "execs resolves [] m = m"
| "execs resolves (s # ss) m =
     (if returned m = None then execs resolves ss (exec resolves s m) else m)"

text \<open>
  The load sequence as the specification words it: for each class of the grouping, in its
  order, a scoped block that resolves the class by its full name, on failure logs an error
  with the short name and returns the error sentinel, and otherwise registers a global
  reference and resolves one method handle for each function, in their order; at the end
  the success sentinel is returned.
\<close>

definition load_sequence :: "class_methods \<Rightarrow> stmt list" where
  "load_sequence class_methods =
     map (\<lambda>(class_name, methods).
            Block class_name
              ([FindClass class_name,
                IfNull [LogError (''Failed to find '' @ short_name class_name @ '' class''),
                        Return JNI_ERR],
                CreateGlobalRef]
               @ map (\<lambda>(fname, sig). GetStaticMethodID class_name fname sig) methods))
         class_methods
     @ [Return JNI_VERSION_1_6]"

text \<open>
  What the specification has the load do: the calls made and the value returned.  The first
  class that does not resolve ends the load; no call is made for a class after it.
\<close>

fun load_behaviour :: "(string \<Rightarrow> bool) \<Rightarrow> class_methods \<Rightarrow> event list \<times> sentinel" where
  "load_behaviour resolves [] = ([], JNI_VERSION_1_6)"
| "load_behaviour resolves ((class_name, methods) # later) =
     (if resolves class_name
      then ([FindClassCall class_name, GlobalRefCreated (Some class_name)]
            @ map (\<lambda>(fname, sig). MethodIDResolved class_name fname sig) methods
            @ fst (load_behaviour resolves later),
            snd (load_behaviour resolves later))
      else ([FindClassCall class_name,
             ErrorLogged (''Failed to find '' @ short_name class_name @ '' class'')],
            JNI_ERR))"

section \<open>The entry point \<open>main\<close>\<close>

text \<open>
  The parsed command line (\<open>args.input\<close>, \<open>args.output\<close>, \<open>args.helper_class\<close>):
  \<open>arg_input\<close> is empty when \<open>--input\<close> is not given.
\<close>

record args =
  arg_input :: "string list"
  arg_output :: string
  arg_helper_class :: string

text \<open>
  What a run that raises nothing leaves behind: the value \<open>main\<close> returns, which is the
  exit code of the process, the warnings and errors printed, and the file written.
  \<open>generate_cpp_file\<close> opens the output file before it writes; when that raises, the run
  ends with the exception and nothing is written.
\<close>

record outcome =
  exit_code :: int
  stdout :: "diag list"
  written :: "(path \<times> string) option"

text \<open>The paths to search: \<open>args.input\<close>, set to its default when no input is given.\<close>

definition args_input :: "args \<Rightarrow> string list" where
  "args_input a = (if arg_input a = [] then [''engine_bridge/src/main/java''] else arg_input a)"

definition main :: "env \<Rightarrow> args \<Rightarrow> py_error + outcome" where
  "main e a =
     (case find_kotlin_files e (args_input a) of
           Inl err \<Rightarrow> Inl err
         | Inr kotlin_files \<Rightarrow>
             if kotlin_files = []
             then Inr \<lparr>exit_code = 1, stdout = [NoKotlinFiles], written = None\<rparr>
             else
               (case extract_native_exports e kotlin_files of
                  Inl err \<Rightarrow> Inl err
                | Inr (class_methods, out) \<Rightarrow>
                    if class_methods = []
                    then Inr \<lparr>exit_code = 0, stdout = out @ [NoNativeExports], written = None\<rparr>
                    else
                      (let output_path = Path (arg_output a);
                           text = generate_cpp_file class_methods (arg_helper_class a);
                           total_methods =
                             sum_list (map (\<lambda>(c, methods). length methods) class_methods)
                       in if \<not> open_w e output_path then Inl OSError
                          else Inr \<lparr>exit_code = 0,
                                    stdout = out @ [Generated output_path (length class_methods)
                                                      total_methods],
                                    written = Some (output_path, text)\<rparr>)))"

section \<open>Worlds given by tables\<close>

text \<open>
  A file system with finitely many files and directories, for running the tool on concrete
  inputs: the files with their contents, the directories with the \<open>.kt\<close> files below
  them, and the relative patterns with the paths they match.  \<open>glob\<close> raises as
  \<open>pathlib\<close> does, on the empty pattern, on a pattern that is not relative, and on a
  component that holds \<open>**\<close> and more.  Every file of the table is a file of its own, and
  the output file can always be opened.  The last argument orders the paths of the world,
  and a set lists its paths in that order.
\<close>

definition index_of :: "'a \<Rightarrow> 'a list \<Rightarrow> nat" where
  "index_of x xs = length (takeWhile (\<lambda>y. y \<noteq> x) xs)"

definition world ::
  "(path \<times> string) list \<Rightarrow> (path \<times> path list) list \<Rightarrow> (string \<times> path list) list \<Rightarrow>
   (path list \<Rightarrow> path list) \<Rightarrow> env" where
  "world files dirs patterns order =
     \<lparr>is_file = (\<lambda>p. p \<in> set (map fst files)),
      is_dir = (\<lambda>p. p \<in> set (map fst dirs)),
      rglob_kt = (\<lambda>p. case map_of dirs p of None \<Rightarrow> [] | Some found \<Rightarrow> found),
      glob = (\<lambda>s. if s = [] then Inl ValueError
                  else if startswith s ''/'' then Inl NotImplementedError
                  else if list_ex (\<lambda>c. c \<noteq> ''**'' \<and> str_contains c ''**'') (split CHR ''/'' s)
                  then Inl ValueError
                  else Inr (case map_of patterns s of None \<Rightarrow> [] | Some found \<Rightarrow> found)),
      read_text = map_of files,
      open_w = (\<lambda>p. True),
      inode = (\<lambda>p. if p \<in> set (map fst files) then Some (index_of p (map fst files)) else None),
      hash_rank = (\<lambda>p. index_of p (order (map fst files @ concat (map snd dirs)
                                            @ concat (map snd patterns))))\<rparr>"

text \<open>An order of the paths other than \<open>first_seen\<close>.\<close>

definition last_seen_first :: "path list \<Rightarrow> path list" where
  "last_seen_first xs = remdups (rev xs)"

text \<open>A world in which the paths of a list are spellings of one file.\<close>

definition linked :: "path list \<Rightarrow> env \<Rightarrow> env" where
  "linked spellings e =
     e\<lparr>inode := (\<lambda>p. if p \<in> set spellings then inode e (hd spellings) else inode e p)\<rparr>"

section \<open>Properties of the TypeMapper\<close>

lemma endswith_append [simp]: "endswith (x @ suf) suf"
  by (simp add: endswith_def)

lemma kotlin_to_jni_type_nonempty:
  "kotlin_to_jni_type ktype nullable = Inr (Some s) \<Longrightarrow> s \<noteq> []"
proof (induction ktype nullable arbitrary: s rule: kotlin_to_jni_type.induct)
  case (1 ktype nullable)
  show ?case
  proof (cases "endswith ktype ''Array''")
    case True
    with "1.prems" show ?thesis
      by (subst (asm) kotlin_to_jni_type.simps)
         (auto simp: Let_def split: sum.splits option.splits if_splits)
  next
    case False
    with "1.prems" show ?thesis
      by (subst (asm) kotlin_to_jni_type.simps)
         (auto simp: subscript_def wrapper_mapping_def mapping_def
               split: sum.splits option.splits if_splits)
  qed
qed

lemma kotlin_to_jni_type_array:
  "kotlin_to_jni_type (x @ ''Array'') nullable =
     map_sum id (map_option ((@) ''['')) (kotlin_to_jni_type x False)"
  by (subst kotlin_to_jni_type.simps)
     (auto simp: Let_def split: sum.splits option.splits dest: kotlin_to_jni_type_nonempty)

lemma kotlin_to_jni_type_base:
  "\<not> endswith ktype ''Array'' \<Longrightarrow>
   kotlin_to_jni_type ktype nullable =
     (case map_of mapping ktype of
        None \<Rightarrow> Inr None
      | Some base_sig \<Rightarrow>
          if base_sig = [] then Inr None
          else if nullable \<and> str_contains ''IFDJZBSC'' base_sig then
            (case subscript wrapper_mapping base_sig of
               Inl e \<Rightarrow> Inl e
             | Inr w \<Rightarrow> Inr (Some w))
          else Inr (Some base_sig))"
  by (subst kotlin_to_jni_type.simps) simp

text \<open>The subscript \<open>wrapper_mapping[base_sig]\<close> always finds its key: the mapper never raises.\<close>

lemma kotlin_to_jni_type_no_raise: "kotlin_to_jni_type ktype nullable \<noteq> Inl e"
proof (induction ktype nullable rule: kotlin_to_jni_type.induct)
  case (1 ktype nullable)
  show ?case
  proof (cases "endswith ktype ''Array''")
    case True
    with 1 show ?thesis
      by (subst kotlin_to_jni_type.simps)
         (auto simp: Let_def split: sum.splits option.splits)
  next
    case False
    then show ?thesis
      by (auto simp: kotlin_to_jni_type_base subscript_def wrapper_mapping_def mapping_def
               startswith_def split: sum.splits option.splits)
  qed
qed

text \<open>
  C3.  Each of the ten names of the table maps, non-nullable, to its descriptor: a one-letter
  code for the eight primitive types, the object descriptor for \<open>String\<close> and \<open>V\<close> for
  \<open>Unit\<close>.  Nullable, the eight primitive types map to their boxed-object descriptors, and
  \<open>String\<close> and \<open>Unit\<close> keep the descriptor they have.
\<close>

theorem type_table_descriptors:
  "kotlin_to_jni_type ''Int'' False = Inr (Some ''I'') \<and>
   kotlin_to_jni_type ''Float'' False = Inr (Some ''F'') \<and>
   kotlin_to_jni_type ''Double'' False = Inr (Some ''D'') \<and>
   kotlin_to_jni_type ''Long'' False = Inr (Some ''J'') \<and>
   kotlin_to_jni_type ''Boolean'' False = Inr (Some ''Z'') \<and>
   kotlin_to_jni_type ''Byte'' False = Inr (Some ''B'') \<and>
   kotlin_to_jni_type ''Short'' False = Inr (Some ''S'') \<and>
   kotlin_to_jni_type ''Char'' False = Inr (Some ''C'') \<and>
   kotlin_to_jni_type ''String'' False = Inr (Some ''Ljava/lang/String;'') \<and>
   kotlin_to_jni_type ''Unit'' False = Inr (Some ''V'') \<and>
   kotlin_to_jni_type ''Int'' True = Inr (Some ''Ljava/lang/Integer;'') \<and>
   kotlin_to_jni_type ''Float'' True = Inr (Some ''Ljava/lang/Float;'') \<and>
   kotlin_to_jni_type ''Double'' True = Inr (Some ''Ljava/lang/Double;'') \<and>
   kotlin_to_jni_type ''Long'' True = Inr (Some ''Ljava/lang/Long;'') \<and>
   kotlin_to_jni_type ''Boolean'' True = Inr (Some ''Ljava/lang/Boolean;'') \<and>
   kotlin_to_jni_type ''Byte'' True = Inr (Some ''Ljava/lang/Byte;'') \<and>
   kotlin_to_jni_type ''Short'' True = Inr (Some ''Ljava/lang/Short;'') \<and>
   kotlin_to_jni_type ''Char'' True = Inr (Some ''Ljava/lang/Character;'') \<and>
   kotlin_to_jni_type ''String'' True = Inr (Some ''Ljava/lang/String;'') \<and>
   kotlin_to_jni_type ''Unit'' True = Inr (Some ''V'')"
  by (simp add: kotlin_to_jni_type_base endswith_def mapping_def wrapper_mapping_def
        subscript_def startswith_def)

text \<open>
  C4.  The descriptor of an array type is \<open>[\<close> followed by the descriptor of its element
  type, mapped non-nullable; \<open>n\<close> array suffixes give \<open>n\<close> array markers; and an element
  type that does not map leaves the array type unmapped.
\<close>

theorem array_type_descriptor:
  "kotlin_to_jni_type (x @ ''Array'') False =
     map_sum id (map_option ((@) ''['')) (kotlin_to_jni_type x False) \<and>
   kotlin_to_jni_type (x @ concat (replicate n ''Array'')) False =
     map_sum id (map_option ((@) (replicate n CHR ''[''))) (kotlin_to_jni_type x False) \<and>
   (kotlin_to_jni_type x False = Inr None \<longrightarrow>
      kotlin_to_jni_type (x @ ''Array'') False = Inr None)"
proof -
  have nested: "kotlin_to_jni_type (y @ concat (replicate n ''Array'')) False =
     map_sum id (map_option ((@) (replicate n CHR ''[''))) (kotlin_to_jni_type y False)" for y
  proof (induction n arbitrary: y)
    case 0
    show ?case
      by (cases "kotlin_to_jni_type y False") (simp_all add: option.map_ident)
  next
    case (Suc n)
    have "kotlin_to_jni_type (y @ concat (replicate (Suc n) ''Array'')) False =
          kotlin_to_jni_type ((y @ ''Array'') @ concat (replicate n ''Array'')) False"
      by simp
    also have "\<dots> = map_sum id (map_option ((@) (replicate n CHR ''['')))
                       (kotlin_to_jni_type (y @ ''Array'') False)"
      by (rule Suc.IH)
    also have "\<dots> = map_sum id (map_option ((@) (replicate (Suc n) CHR ''['')))
                       (kotlin_to_jni_type y False)"
    proof (cases "kotlin_to_jni_type y False")
      case (Inl e)
      then show ?thesis by (simp add: kotlin_to_jni_type_array)
    next
      case (Inr b)
      then show ?thesis
        by (cases b) (simp_all add: kotlin_to_jni_type_array replicate_app_Cons_same)
    qed
    finally show ?case .
  qed
  show ?thesis
    using nested [of x] by (simp add: kotlin_to_jni_type_array)
qed

theorem array_type_descriptor_witness:
  "kotlin_to_jni_type ''Foo'' False = Inr None \<and>
   kotlin_to_jni_type ''FooArray'' False = Inr None \<and>
   kotlin_to_jni_type ''IntArrayArray'' False = Inr (Some ''[[I'')"
proof -
  have unknown: "kotlin_to_jni_type ''Foo'' False = Inr None"
    by (simp add: kotlin_to_jni_type_base endswith_def mapping_def)
  have known: "kotlin_to_jni_type ''Int'' False = Inr (Some ''I'')"
    by (simp add: kotlin_to_jni_type_base endswith_def mapping_def)
  show ?thesis
    using array_type_descriptor [of "''Foo''" 0] array_type_descriptor [of "''Int''" 2]
      unknown known
    by (simp add: numeral_2_eq_2)
qed

text \<open>
  C9.  For a type name that ends with the array suffix the nullability flag does not change
  the descriptor: the array rule comes first and maps the element type non-nullable.
\<close>

theorem array_type_ignores_nullable:
  "endswith t ''Array'' \<Longrightarrow> kotlin_to_jni_type t True = kotlin_to_jni_type t False"
proof -
  assume e: "endswith t ''Array''"
  from e have d: "drop (length t - length ''Array'') t = ''Array''"
    unfolding endswith_def by (rule conjunct2)
  have "t = take (length t - length ''Array'') t @ drop (length t - length ''Array'') t"
    by (rule append_take_drop_id [symmetric])
  then have "t = take (length t - length ''Array'') t @ ''Array''"
    by (simp only: d)
  then obtain x where t: "t = x @ ''Array''" ..
  show ?thesis
    unfolding t kotlin_to_jni_type_array ..
qed

theorem array_type_ignores_nullable_witness:
  "endswith ''IntArray'' ''Array'' \<and>
   kotlin_to_jni_type ''IntArray'' True = Inr (Some ''[I'') \<and>
   kotlin_to_jni_type ''IntArray'' False = Inr (Some ''[I'')"
proof -
  have e: "endswith ''IntArray'' ''Array''"
    by (simp add: endswith_def)
  have "kotlin_to_jni_type (''Int'' @ ''Array'') False = Inr (Some ''[I'')"
    unfolding kotlin_to_jni_type_array
    by (simp add: kotlin_to_jni_type_base endswith_def mapping_def)
  then show ?thesis
    using array_type_ignores_nullable [OF e] e by simp
qed

section \<open>Properties of the CodeEmitter\<close>

lemma write_all_concat: "write_all f ss = f @ concat ss"
  by (induction ss arbitrary: f) simp_all

lemma write_methods_concat:
  "write_methods class_name methods f =
     f @ concat (map (\<lambda>(fname, sig).
           ''        helper->getStaticMethodID(\"'' @ class_name @ ''\", \"'' @ fname @ ''\",\<newline>''
           @ ''                                  \"'' @ sig @ ''\");\<newline>\<newline>'') methods)"
  by (induction class_name methods f rule: write_methods.induct)
     (simp_all add: write_all_concat)

lemma write_classes_concat:
  "write_classes items f =
     f @ concat (map (\<lambda>(class_name, methods).
           ''    // Load methods for '' @ class_name @ ''\<newline>''
           @ ''    {\<newline>''
           @ ''        auto clazzRef = helper->findClass(\"'' @ class_name @ ''\");\<newline>''
           @ ''        if (!clazzRef)\<newline>''
           @ ''        {\<newline>''
           @ ''            SATURN_ERROR(\"Failed to find '' @ last (split CHR ''/'' class_name)
           @ '' class\");\<newline>''
           @ ''            return JNI_ERR;\<newline>''
           @ ''        }\<newline>\<newline>''
           @ ''        helper->createGlobalRef(clazzRef);\<newline>\<newline>''
           @ concat (map (\<lambda>(fname, sig).
               ''        helper->getStaticMethodID(\"'' @ class_name @ ''\", \"'' @ fname @ ''\",\<newline>''
               @ ''                                  \"'' @ sig @ ''\");\<newline>\<newline>'') methods)
           @ ''    }\<newline>\<newline>'') items)"
proof (induction items arbitrary: f)
  case Nil
  show ?case by simp
next
  case (Cons item items)
  obtain class_name methods where item: "item = (class_name, methods)"
    by (cases item)
  show ?case
    unfolding item write_classes.simps Cons.IH
    by (simp only: write_all_concat write_methods_concat
          list.map concat.simps prod.case append_Nil2 append_assoc)
qed

lemma split_not_Nil: "split sep s \<noteq> []"
  by (induction s) (auto split: list.splits)

lemma split_no_sep: "sep \<notin> set w \<Longrightarrow> split sep w = [w]"
  by (induction w) auto

lemma split_append_sep:
  "sep \<notin> set w \<Longrightarrow> \<exists>xs. xs \<noteq> [] \<and> split sep (pre @ sep # w) = xs @ [w]"
proof (induction pre)
  case Nil
  then show ?case
    by (intro exI [of _ "[[]]"]) (simp add: split_no_sep)
next
  case (Cons c pre)
  then obtain xs where xs: "xs \<noteq> []" "split sep (pre @ sep # w) = xs @ [w]"
    by blast
  then obtain y ys where y: "xs = y # ys"
    by (cases xs) auto
  show ?case
  proof (cases "c = sep")
    case True
    with xs show ?thesis
      by (intro exI [of _ "[] # xs"]) simp
  next
    case False
    with xs y show ?thesis
      by (intro exI [of _ "(c # y) # ys"]) simp
  qed
qed

text \<open>
  The short name \<open>class_name.split('/')[-1]\<close> of the emitter is the short name of the
  specification: what follows the last slash, and the whole name when it has no slash.
\<close>

lemma last_split_short_name: "last (split CHR ''/'' class_name) = short_name class_name"
proof (cases "CHR ''/'' \<in> set class_name")
  case False
  then have "takeWhile (\<lambda>c. c \<noteq> CHR ''/'') (rev class_name) = rev class_name"
    by (intro takeWhile_eq_all_conv [THEN iffD2]) auto
  then have "short_name class_name = class_name"
    by (simp only: short_name_def rev_rev_ident)
  with False show ?thesis
    by (simp add: split_no_sep)
next
  case True
  then obtain pre w where s: "class_name = pre @ CHR ''/'' # w" and w: "CHR ''/'' \<notin> set w"
    by (auto dest: split_list_last)
  from w have "takeWhile (\<lambda>c. c \<noteq> CHR ''/'') (rev w) = rev w"
    by (intro takeWhile_eq_all_conv [THEN iffD2]) auto
  then have "takeWhile (\<lambda>c. c \<noteq> CHR ''/'') (rev w @ CHR ''/'' # rev pre) = rev w"
    by (simp add: takeWhile_tail)
  then have "short_name class_name = w"
    by (simp add: short_name_def s)
  moreover from split_append_sep [OF w, of pre] have "last (split CHR ''/'' class_name) = w"
    unfolding s by auto
  ultimately show ?thesis by simp
qed

lemma short_name_after_last_slash:
  "CHR ''/'' \<notin> set w \<Longrightarrow> short_name (pre @ ''/'' @ w) = w"
  using split_append_sep [of "CHR ''/''" w pre] last_split_short_name [of "pre @ ''/'' @ w"]
  by auto

lemma short_name_without_slash: "CHR ''/'' \<notin> set w \<Longrightarrow> short_name w = w"
  using last_split_short_name [of w] by (simp add: split_no_sep)

text \<open>The text the emitter writes for the classes is the text of the load sequence.\<close>

lemma show_methods:
  "concat (map (show_stmt ind \<circ> (\<lambda>(fname, sig). GetStaticMethodID class_name fname sig)) methods) =
   concat (map (\<lambda>(fname, sig).
           ind @ ''helper->getStaticMethodID(\"'' @ class_name @ ''\", \"'' @ fname @ ''\",\<newline>''
           @ ''                                  \"'' @ sig @ ''\");\<newline>\<newline>'') methods)"
  by (induction methods) (simp_all add: case_prod_beta)

lemma write_classes_load_sequence:
  "write_classes items f @ ''    return JNI_VERSION_1_6;\<newline>'' =
     f @ concat (map (show_stmt ''    '') (load_sequence items))"
proof (induction items arbitrary: f)
  case Nil
  show ?case by (simp add: load_sequence_def)
next
  case (Cons item items)
  obtain class_name methods where item: "item = (class_name, methods)"
    by (cases item)
  have tail: "load_sequence (item # items) =
      Block class_name
        ([FindClass class_name,
          IfNull [LogError (''Failed to find '' @ short_name class_name @ '' class''),
                  Return JNI_ERR],
          CreateGlobalRef]
         @ map (\<lambda>(fname, sig). GetStaticMethodID class_name fname sig) methods)
      # load_sequence items"
    by (simp add: load_sequence_def item)
  show ?case
    unfolding item write_classes.simps Cons.IH tail [unfolded item]
    by (simp add: write_all_concat write_methods_concat show_methods last_split_short_name)
qed

text \<open>Running the load sequence.\<close>

lemma execs_returned: "returned m \<noteq> None \<Longrightarrow> execs resolves ss m = m"
  by (cases ss) auto

lemma execs_append: "execs resolves (xs @ ys) m = execs resolves ys (execs resolves xs m)"
proof (induction xs arbitrary: m)
  case Nil
  show ?case by simp
next
  case (Cons x xs)
  show ?case
  proof (cases "returned m = None")
    case True
    with Cons.IH show ?thesis by simp
  next
    case False
    have a: "execs resolves ((x # xs) @ ys) m = m"
      by (rule execs_returned [OF False])
    have b: "execs resolves (x # xs) m = m"
      by (rule execs_returned [OF False])
    show ?thesis
      unfolding a b by (rule execs_returned [OF False, symmetric])
  qed
qed

lemma execs_methods:
  "returned m = None \<Longrightarrow>
   execs resolves (map (\<lambda>(fname, sig). GetStaticMethodID class_name fname sig) methods) m =
     m\<lparr>calls := calls m @ map (\<lambda>(fname, sig). MethodIDResolved class_name fname sig) methods\<rparr>"
proof (induction methods arbitrary: m)
  case Nil
  show ?case by simp
next
  case (Cons x methods)
  obtain fname sig where x: "x = (fname, sig)" by (cases x)
  have "returned (m\<lparr>calls := calls m @ [MethodIDResolved class_name fname sig]\<rparr>) = None"
    using Cons.prems by simp
  from Cons.IH [OF this] Cons.prems show ?case
    by (simp add: x)
qed

lemma execs_load_sequence:
  "returned m = None \<Longrightarrow>
   calls (execs resolves (load_sequence class_methods) m) =
     calls m @ fst (load_behaviour resolves class_methods) \<and>
   returned (execs resolves (load_sequence class_methods) m) =
     Some (snd (load_behaviour resolves class_methods))"
proof (induction class_methods arbitrary: m)
  case Nil
  then show ?case by (simp add: load_sequence_def)
next
  case (Cons item class_methods)
  obtain class_name methods where item: "item = (class_name, methods)"
    by (cases item)
  let ?body = "[FindClass class_name,
          IfNull [LogError (''Failed to find '' @ short_name class_name @ '' class''),
                  Return JNI_ERR],
          CreateGlobalRef]
         @ map (\<lambda>(fname, sig). GetStaticMethodID class_name fname sig) methods"
  have seq: "load_sequence (item # class_methods) = Block class_name ?body # load_sequence class_methods"
    by (simp add: load_sequence_def item)
  show ?case
  proof (cases "resolves class_name")
    case True
    let ?m1 = "m\<lparr>clazzRef := Some class_name,
                  calls := calls m @ [FindClassCall class_name, GlobalRefCreated (Some class_name)]\<rparr>"
    have m1: "returned ?m1 = None"
      using Cons.prems by simp
    have "execs resolves ?body m =
        execs resolves (map (\<lambda>(fname, sig). GetStaticMethodID class_name fname sig) methods) ?m1"
      using Cons.prems True by simp
    also have "\<dots> = ?m1\<lparr>calls := calls ?m1
          @ map (\<lambda>(fname, sig). MethodIDResolved class_name fname sig) methods\<rparr>"
      using m1 by (rule execs_methods)
    finally have block: "exec resolves (Block class_name ?body) m =
        ?m1\<lparr>calls := calls ?m1 @ map (\<lambda>(fname, sig). MethodIDResolved class_name fname sig) methods\<rparr>"
      by simp
    have "returned (?m1\<lparr>calls := calls ?m1
          @ map (\<lambda>(fname, sig). MethodIDResolved class_name fname sig) methods\<rparr>) = None"
      using Cons.prems by simp
    from Cons.IH [OF this] Cons.prems True show ?thesis
      unfolding seq execs.simps block by (simp add: item)
  next
    case False
    have "exec resolves (Block class_name ?body) m =
        m\<lparr>clazzRef := None,
          calls := calls m @ [FindClassCall class_name,
                              ErrorLogged (''Failed to find '' @ short_name class_name @ '' class'')],
          returned := Some JNI_ERR\<rparr>"
      using Cons.prems False by simp
    with Cons.prems False show ?thesis
      unfolding seq execs.simps by (simp add: item execs_returned)
  qed
qed

lemma load_behaviour_all_resolve:
  "\<forall>x\<in>set class_methods. resolves (fst x) \<Longrightarrow>
   load_behaviour resolves class_methods =
     (concat (map (\<lambda>(class_name, methods).
          [FindClassCall class_name, GlobalRefCreated (Some class_name)]
          @ map (\<lambda>(fname, sig). MethodIDResolved class_name fname sig) methods) class_methods),
      JNI_VERSION_1_6)"
  by (induction class_methods) (auto simp: case_prod_beta)

lemma load_behaviour_first_failure:
  "\<forall>x\<in>set before. resolves (fst x) \<Longrightarrow> \<not> resolves class_name \<Longrightarrow>
   load_behaviour resolves (before @ (class_name, methods) # later) =
     (fst (load_behaviour resolves before)
      @ [FindClassCall class_name,
         ErrorLogged (''Failed to find '' @ short_name class_name @ '' class'')],
      JNI_ERR)"
  by (induction before) (auto simp: case_prod_beta)

text \<open>
  C6.  The emitted file is the header, the text of the load sequence of the specification,
  and the unload entry point; the short name in the error message is what follows the last
  slash of the class name.  Run against any runtime, the load sequence makes the calls and
  returns the value the specification asks for: the classes are resolved in the order of
  the grouping; the first class that does not resolve is logged by its short name and ends
  the load with the error sentinel, with no call for this class beyond the look-up and no
  call at all for a later class; a class that resolves gets its global reference and then
  one method handle for each of its functions, in their order; when all classes resolve
  the load returns the success sentinel.
\<close>

theorem generated_load_entry_point:
  "generate_cpp_file class_methods helper_class =
     ''// Auto-generated JNI loader code\<newline>''
     @ ''// Generated by jni_generator.py\<newline>''
     @ ''// Found '' @ str_nat (length class_methods) @ '' classes with ''
     @ str_nat (sum_list (map (\<lambda>(class_name, methods). length methods) class_methods))
     @ '' methods\<newline>\<newline>''
     @ ''JNIEXPORT jint JNI_OnLoad(JavaVM* vm, void* reserved)\<newline>''
     @ ''{\<newline>''
     @ ''    saturn::tools::Logger::initialize();\<newline>\<newline>''
     @ ''    auto helper = '' @ helper_class @ ''::getInstance();\<newline>\<newline>''
     @ ''    helper->initialize(vm);\<newline>\<newline>''
     @ concat (map (show_stmt ''    '') (load_sequence class_methods))
     @ ''}\<newline>''
     @ ''\<newline>JNIEXPORT void JNICALL JNI_OnUnload(JavaVM* vm, void* /*reserved*/)\<newline>''
     @ ''{\<newline>''
     @ ''    saturn::platform::agdk::JNIHelper::getInstance()->shutdown();\<newline>\<newline>''
     @ ''    saturn::tools::Logger::shutdown();\<newline>''
     @ ''}\<newline>'' \<and>
   calls (execs resolves (load_sequence class_methods)
            \<lparr>clazzRef = None, calls = [], returned = None\<rparr>) =
     fst (load_behaviour resolves class_methods) \<and>
   returned (execs resolves (load_sequence class_methods)
               \<lparr>clazzRef = None, calls = [], returned = None\<rparr>) =
     Some (snd (load_behaviour resolves class_methods)) \<and>
   ((\<forall>x\<in>set before. resolves (fst x)) \<and> \<not> resolves failing \<longrightarrow>
      load_behaviour resolves (before @ (failing, methods) # later) =
        (fst (load_behaviour resolves before)
         @ [FindClassCall failing, ErrorLogged (''Failed to find '' @ short_name failing @ '' class'')],
         JNI_ERR)) \<and>
   ((\<forall>x\<in>set class_methods. resolves (fst x)) \<longrightarrow>
      load_behaviour resolves class_methods =
        (concat (map (\<lambda>(class_name, methods).
             [FindClassCall class_name, GlobalRefCreated (Some class_name)]
             @ map (\<lambda>(fname, sig). MethodIDResolved class_name fname sig) methods) class_methods),
         JNI_VERSION_1_6)) \<and>
   (CHR ''/'' \<notin> set w \<longrightarrow> short_name (pre @ ''/'' @ w) = w \<and> short_name w = w)"
proof -
  let ?H = "''// Auto-generated JNI loader code\<newline>''
     @ ''// Generated by jni_generator.py\<newline>''
     @ ''// Found '' @ str_nat (length class_methods) @ '' classes with ''
     @ str_nat (sum_list (map (\<lambda>(class_name, methods). length methods) class_methods))
     @ '' methods\<newline>\<newline>''
     @ ''JNIEXPORT jint JNI_OnLoad(JavaVM* vm, void* reserved)\<newline>''
     @ ''{\<newline>''
     @ ''    saturn::tools::Logger::initialize();\<newline>\<newline>''
     @ ''    auto helper = '' @ helper_class @ ''::getInstance();\<newline>\<newline>''
     @ ''    helper->initialize(vm);\<newline>\<newline>''"
  let ?F = "''}\<newline>''
     @ ''\<newline>JNIEXPORT void JNICALL JNI_OnUnload(JavaVM* vm, void* /*reserved*/)\<newline>''
     @ ''{\<newline>''
     @ ''    saturn::platform::agdk::JNIHelper::getInstance()->shutdown();\<newline>\<newline>''
     @ ''    saturn::tools::Logger::shutdown();\<newline>''
     @ ''}\<newline>''"
  have "generate_cpp_file class_methods helper_class =
      (write_classes class_methods ?H @ ''    return JNI_VERSION_1_6;\<newline>'') @ ?F"
    by (simp only: generate_cpp_file_def Let_def write_all_concat concat.simps
          append_Nil append_Nil2 append_assoc)
  also have "\<dots> = (?H @ concat (map (show_stmt ''    '') (load_sequence class_methods))) @ ?F"
    by (simp only: write_classes_load_sequence)
  finally have emitted: "generate_cpp_file class_methods helper_class =
      ?H @ concat (map (show_stmt ''    '') (load_sequence class_methods)) @ ?F"
    by (simp only: append_assoc)
  have run: "calls (execs resolves (load_sequence class_methods)
            \<lparr>clazzRef = None, calls = [], returned = None\<rparr>) =
     fst (load_behaviour resolves class_methods) \<and>
   returned (execs resolves (load_sequence class_methods)
               \<lparr>clazzRef = None, calls = [], returned = None\<rparr>) =
     Some (snd (load_behaviour resolves class_methods))"
    using execs_load_sequence [of "\<lparr>clazzRef = None, calls = [], returned = None\<rparr>"
        resolves class_methods]
    by simp
  show ?thesis
    apply (intro conjI impI)
    subgoal using emitted by (simp only: append_assoc)
    subgoal using run by (rule conjunct1)
    subgoal using run by (rule conjunct2)
    subgoal by (intro load_behaviour_first_failure) blast+
    subgoal by (rule load_behaviour_all_resolve)
    subgoal by (rule short_name_after_last_slash)
    subgoal by (rule short_name_without_slash)
    done
qed

theorem generated_load_entry_point_witness:
  "calls (execs (\<lambda>c. c = ''A'')
            (load_sequence [(''A'', [(''f'', ''()V'')]),
                            (''com/example/Math'', [(''add'', ''(II)I'')]),
                            (''C'', [(''h'', ''()V'')])])
            \<lparr>clazzRef = None, calls = [], returned = None\<rparr>) =
     [FindClassCall ''A'', GlobalRefCreated (Some ''A''), MethodIDResolved ''A'' ''f'' ''()V'',
      FindClassCall ''com/example/Math'', ErrorLogged ''Failed to find Math class''] \<and>
   returned (execs (\<lambda>c. c = ''A'')
               (load_sequence [(''A'', [(''f'', ''()V'')]),
                               (''com/example/Math'', [(''add'', ''(II)I'')]),
                               (''C'', [(''h'', ''()V'')])])
               \<lparr>clazzRef = None, calls = [], returned = None\<rparr>) = Some JNI_ERR \<and>
   returned (execs (\<lambda>c. c = ''A'') (load_sequence [(''A'', [(''f'', ''()V'')])])
               \<lparr>clazzRef = None, calls = [], returned = None\<rparr>) = Some JNI_VERSION_1_6"
proof -
  let ?R = "\<lambda>c. c = ''A''"
  have name: "short_name ''com/example/Math'' = ''Math''"
    using generated_load_entry_point [of "[]" "[]" ?R "[]" "[]" "[]" "[]" "''Math''" "''com/example''"]
    by simp
  have fail: "load_behaviour ?R ([(''A'', [(''f'', ''()V'')])]
        @ (''com/example/Math'', [(''add'', ''(II)I'')]) # [(''C'', [(''h'', ''()V'')])]) =
      ([FindClassCall ''A'', GlobalRefCreated (Some ''A''), MethodIDResolved ''A'' ''f'' ''()V'',
        FindClassCall ''com/example/Math'', ErrorLogged ''Failed to find Math class''], JNI_ERR)"
    using generated_load_entry_point [of "[]" "[]" ?R "[(''A'', [(''f'', ''()V'')])]"
        "''com/example/Math''" "[(''add'', ''(II)I'')]" "[(''C'', [(''h'', ''()V'')])]" "[]" "[]"]
      name
    by simp
  have ok: "load_behaviour ?R [(''A'', [(''f'', ''()V'')])] =
      ([FindClassCall ''A'', GlobalRefCreated (Some ''A''), MethodIDResolved ''A'' ''f'' ''()V''],
       JNI_VERSION_1_6)"
    using generated_load_entry_point [of "[(''A'', [(''f'', ''()V'')])]" "[]" ?R "[]" "[]" "[]" "[]"
        "[]" "[]"]
    by simp
  have run3: "calls (execs ?R (load_sequence ([(''A'', [(''f'', ''()V'')])]
        @ (''com/example/Math'', [(''add'', ''(II)I'')]) # [(''C'', [(''h'', ''()V'')])]))
            \<lparr>clazzRef = None, calls = [], returned = None\<rparr>) =
      fst (load_behaviour ?R ([(''A'', [(''f'', ''()V'')])]
        @ (''com/example/Math'', [(''add'', ''(II)I'')]) # [(''C'', [(''h'', ''()V'')])])) \<and>
     returned (execs ?R (load_sequence ([(''A'', [(''f'', ''()V'')])]
        @ (''com/example/Math'', [(''add'', ''(II)I'')]) # [(''C'', [(''h'', ''()V'')])]))
            \<lparr>clazzRef = None, calls = [], returned = None\<rparr>) =
      Some (snd (load_behaviour ?R ([(''A'', [(''f'', ''()V'')])]
        @ (''com/example/Math'', [(''add'', ''(II)I'')]) # [(''C'', [(''h'', ''()V'')])])))"
    using generated_load_entry_point [of "[(''A'', [(''f'', ''()V'')])]
        @ (''com/example/Math'', [(''add'', ''(II)I'')]) # [(''C'', [(''h'', ''()V'')])]" "[]" ?R
        "[]" "[]" "[]" "[]" "[]" "[]"]
    by blast
  have run1: "returned (execs ?R (load_sequence [(''A'', [(''f'', ''()V'')])])
               \<lparr>clazzRef = None, calls = [], returned = None\<rparr>) =
      Some (snd (load_behaviour ?R [(''A'', [(''f'', ''()V'')])]))"
    using generated_load_entry_point [of "[(''A'', [(''f'', ''()V'')])]" "[]" ?R
        "[]" "[]" "[]" "[]" "[]" "[]"]
    by blast
  from run3 run1 show ?thesis
    unfolding fail ok by simp
qed

section \<open>Properties of the SourceScanner\<close>

lemma collect_acc: "collect e input_paths acc = Inr xs \<Longrightarrow> set acc \<subseteq> set xs"
proof (induction input_paths arbitrary: acc)
  case Nil
  then show ?case by simp
next
  case (Cons i input_paths)
  from Cons.prems obtain found where "collect e input_paths (acc @ found) = Inr xs"
    by (auto split: sum.splits)
  from Cons.IH [OF this] show ?case by auto
qed

lemma collect_set:
  "collect e input_paths acc = Inr xs \<Longrightarrow>
     resolve_input e a = Inr ps \<Longrightarrow> a \<in> set input_paths \<Longrightarrow> set ps \<subseteq> set xs"
proof (induction input_paths arbitrary: acc)
  case Nil
  then show ?case by simp
next
  case (Cons i input_paths)
  from Cons.prems(1) obtain found where found: "resolve_input e i = Inr found"
    and rest: "collect e input_paths (acc @ found) = Inr xs"
    by (auto split: sum.splits)
  show ?case
  proof (cases "a = i")
    case True
    with found Cons.prems(2) have "ps = found" by simp
    with collect_acc [OF rest] show ?thesis by auto
  next
    case False
    with Cons.prems(3) have "a \<in> set input_paths" by simp
    from Cons.IH [OF rest Cons.prems(2) this] show ?thesis .
  qed
qed

lemma count_list_distinct: "distinct xs \<Longrightarrow> x \<in> set xs \<Longrightarrow> count_list xs x = 1"
  by (induction xs) (auto simp: count_list_0_iff)

lemma set_first_seen [simp]: "set (first_seen xs) = set xs"
  by (simp add: first_seen_def)

lemma distinct_first_seen [simp]: "distinct (first_seen xs)"
  by (simp add: first_seen_def)

text \<open>The scanner lists every path it collected, and none of them twice.\<close>

lemma find_kotlin_files_distinct:
  "find_kotlin_files e input_paths = Inr files \<Longrightarrow> distinct files"
  by (auto simp: find_kotlin_files_def split: sum.splits)

lemma find_kotlin_files_set:
  "find_kotlin_files e input_paths = Inr files \<Longrightarrow>
     collect e input_paths [] = Inr xs \<Longrightarrow> set files = set xs"
  by (auto simp: find_kotlin_files_def split: sum.splits)

text \<open>A pattern that \<open>glob\<close> does not accept ends the scan with its exception.\<close>

lemma scanner_raises_on_unaccepted_pattern:
  "find_kotlin_files (world [] [] [] first_seen) [''src/**.kt''] = Inl ValueError"
  by code_simp

text \<open>
  C8, as amended.  When two of the inputs both resolve to the same path, the list the
  scanner returns holds that path exactly once, whatever the order of its set.  The scanner
  compares paths, not files: the resolved list has no two equal paths.
\<close>

theorem scanner_lists_path_once:
  assumes "find_kotlin_files e input_paths = Inr files"
    and "i < length input_paths" and "j < length input_paths" and "i \<noteq> j"
    and "resolve_input e (input_paths ! i) = Inr ps" and "p \<in> set ps"
    and "resolve_input e (input_paths ! j) = Inr qs" and "p \<in> set qs"
  shows "count_list files p = 1"
proof -
  from assms(1) obtain xs where xs: "collect e input_paths [] = Inr xs"
    by (auto simp: find_kotlin_files_def split: sum.splits)
  have "input_paths ! i \<in> set input_paths"
    using assms(2) by simp
  from collect_set [OF xs assms(5) this] assms(6) have "p \<in> set xs" by auto
  with find_kotlin_files_set [OF assms(1) xs] have "p \<in> set files"
    by simp
  with find_kotlin_files_distinct [OF assms(1)] show ?thesis
    by (simp add: count_list_distinct)
qed

theorem scanner_lists_path_once_witness:
  "resolve_input (world [] [(Path ''src'', [Path ''src/A.kt''])] [(''src/*.kt'', [Path ''src/A.kt''])] first_seen) ''src''
     = Inr [Path ''src/A.kt''] \<and>
   resolve_input (world [] [(Path ''src'', [Path ''src/A.kt''])] [(''src/*.kt'', [Path ''src/A.kt''])] first_seen) ''src/*.kt''
     = Inr [Path ''src/A.kt''] \<and>
   find_kotlin_files (world [] [(Path ''src'', [Path ''src/A.kt''])] [(''src/*.kt'', [Path ''src/A.kt''])] first_seen)
     [''src'', ''src/*.kt''] = Inr [Path ''src/A.kt''] \<and>
   count_list [Path ''src/A.kt''] (Path ''src/A.kt'') = 1"
proof -
  let ?w = "world [] [(Path ''src'', [Path ''src/A.kt''])] [(''src/*.kt'', [Path ''src/A.kt''])] first_seen"
  have r1: "resolve_input ?w ([''src'', ''src/*.kt''] ! 0) = Inr [Path ''src/A.kt'']"
    by code_simp
  have r2: "resolve_input ?w ([''src'', ''src/*.kt''] ! 1) = Inr [Path ''src/A.kt'']"
    by code_simp
  have f: "find_kotlin_files ?w [''src'', ''src/*.kt''] = Inr [Path ''src/A.kt'']"
    by code_simp
  have "count_list [Path ''src/A.kt''] (Path ''src/A.kt'') = 1"
    by (rule scanner_lists_path_once [OF f _ _ _ r1 _ r2]) simp_all
  with r1 r2 f show ?thesis by simp
qed

text \<open>
  C8, as claimed, fails: in the world below the directory \<open>src\<close> of the working directory
  \<open>/w\<close> is given once by its relative and once by its absolute path.  Both inputs reach the
  one file \<open>A.kt\<close>, and the scanner lists it twice, once under each spelling.
\<close>

theorem one_file_listed_twice:
  "resolve_input
     (linked [Path ''src/A.kt'', Path ''/w/src/A.kt'']
        (world [(Path ''src/A.kt'', ''class A''), (Path ''/w/src/A.kt'', ''class A'')]
               [(Path ''src'', [Path ''src/A.kt'']), (Path ''/w/src'', [Path ''/w/src/A.kt''])] []
               first_seen))
     ''src'' = Inr [Path ''src/A.kt''] \<and>
   resolve_input
     (linked [Path ''src/A.kt'', Path ''/w/src/A.kt'']
        (world [(Path ''src/A.kt'', ''class A''), (Path ''/w/src/A.kt'', ''class A'')]
               [(Path ''src'', [Path ''src/A.kt'']), (Path ''/w/src'', [Path ''/w/src/A.kt''])] []
               first_seen))
     ''/w/src'' = Inr [Path ''/w/src/A.kt''] \<and>
   inode
     (linked [Path ''src/A.kt'', Path ''/w/src/A.kt'']
        (world [(Path ''src/A.kt'', ''class A''), (Path ''/w/src/A.kt'', ''class A'')]
               [(Path ''src'', [Path ''src/A.kt'']), (Path ''/w/src'', [Path ''/w/src/A.kt''])] []
               first_seen))
     (Path ''src/A.kt'') = Some 0 \<and>
   inode
     (linked [Path ''src/A.kt'', Path ''/w/src/A.kt'']
        (world [(Path ''src/A.kt'', ''class A''), (Path ''/w/src/A.kt'', ''class A'')]
               [(Path ''src'', [Path ''src/A.kt'']), (Path ''/w/src'', [Path ''/w/src/A.kt''])] []
               first_seen))
     (Path ''/w/src/A.kt'') = Some 0 \<and>
   find_kotlin_files
     (linked [Path ''src/A.kt'', Path ''/w/src/A.kt'']
        (world [(Path ''src/A.kt'', ''class A''), (Path ''/w/src/A.kt'', ''class A'')]
               [(Path ''src'', [Path ''src/A.kt'']), (Path ''/w/src'', [Path ''/w/src/A.kt''])] []
               first_seen))
     [''src'', ''/w/src''] = Inr [Path ''src/A.kt'', Path ''/w/src/A.kt'']"
  by (intro conjI) code_simp+

section \<open>Properties of the owning-class determination\<close>

text \<open>
  The third class pattern does not compile: its look-behind \<^verbatim>\<open>@\w{0,20}\<close> matches texts of
  1 to 21 characters.
\<close>

lemma class_pattern3_width:
  "getwidth (seq [chr CHR ''@'', Repeat 0 (Some 20) wd]) = (1, Some 21)"
  by (simp add: seq_def chr_def)

lemma class_pattern3_raises:
  "re_finditer class_pattern3 file_content =
     Inl (ReError ''look-behind requires fixed-width pattern'')"
  by (simp add: re_finditer_def re_compile_def class_pattern3_def seq_def chr_def plus_def lit_def)

lemma first_two_patterns_compile:
  "re_compile class_pattern1 = Inr class_pattern1"
  "re_compile class_pattern2 = Inr class_pattern2"
  "re_compile package_pattern = Inr package_pattern"
  "re_compile method_pattern = Inr method_pattern"
  by (simp_all add: re_compile_def class_pattern1_def class_pattern2_def package_pattern_def
        method_pattern_def seq_def chr_def plus_def star_def opt_def lit_def)

text \<open>
  So the loop over the class patterns either finds a class name with one of the first two
  patterns or raises: it never ends without a name, and the fallback to the file name is
  never reached.
\<close>

lemma class_loop_found_or_raises:
  "class_loop class_patterns file_content = Inr r \<Longrightarrow> truthy r"
  by (auto simp: class_patterns_def class_pattern3_raises split: sum.splits if_splits)

lemma class_loop_raises:
  "class_loop [class_pattern1, class_pattern2] file_content = Inr None \<Longrightarrow>
   class_loop class_patterns file_content =
     Inl (ReError ''look-behind requires fixed-width pattern'')"
  by (auto simp: class_patterns_def class_pattern3_raises split: sum.splits if_splits)

lemma extract_package_and_class_raises:
  "class_loop [class_pattern1, class_pattern2] file_content = Inr None \<Longrightarrow>
   extract_package_and_class file_content file_path =
     Inl (ReError ''look-behind requires fixed-width pattern'')"
  by (simp add: extract_package_and_class_def re_search_def first_two_patterns_compile
        class_loop_raises Let_def)

lemma extract_package_and_class_nonempty:
  "extract_package_and_class file_content file_path = Inr r \<Longrightarrow> \<exists>c. r = Some c \<and> c \<noteq> []"
  unfolding extract_package_and_class_def Let_def
  by (auto split: sum.splits option.splits if_splits dest!: class_loop_found_or_raises)

text \<open>
  C10.  The claim is that the determination of the owning class returns a name for every
  content and every path with a non-empty base name.  It does not: for a file without a
  class or object declaration at the start of a line, here \<open>Util.kt\<close> with one top-level
  function, the third pattern is compiled and \<open>re\<close> rejects it, so the function raises
  and the file name is never used.
\<close>

theorem class_from_file_name_raises:
  "stem (Path ''Util.kt'') = ''Util'' \<and>
   extract_package_and_class ''fun helper() {}'' (Path ''Util.kt'') =
     Inl (ReError ''look-behind requires fixed-width pattern'')"
proof -
  have "stem (Path ''Util.kt'') = ''Util''"
    by code_simp
  moreover have "class_loop [class_pattern1, class_pattern2] ''fun helper() {}'' = Inr None"
    by code_simp
  ultimately show ?thesis
    by (simp add: extract_package_and_class_raises)
qed

section \<open>Properties of the entry point\<close>

text \<open>What \<open>main\<close> returns once the scanner and the extractor have returned.\<close>

lemma main_without_exception:
  "find_kotlin_files e (args_input a)
     = Inr [] \<Longrightarrow>
   main e a = Inr \<lparr>exit_code = 1, stdout = [NoKotlinFiles], written = None\<rparr>"
  "find_kotlin_files e (args_input a)
     = Inr kotlin_files \<Longrightarrow> kotlin_files \<noteq> [] \<Longrightarrow>
   extract_native_exports e kotlin_files = Inr ([], out) \<Longrightarrow>
   main e a = Inr \<lparr>exit_code = 0, stdout = out @ [NoNativeExports], written = None\<rparr>"
  "find_kotlin_files e (args_input a)
     = Inr kotlin_files \<Longrightarrow> kotlin_files \<noteq> [] \<Longrightarrow>
   extract_native_exports e kotlin_files = Inr (class_methods, out) \<Longrightarrow> class_methods \<noteq> [] \<Longrightarrow>
   open_w e (Path (arg_output a)) \<Longrightarrow>
   main e a =
     Inr \<lparr>exit_code = 0,
          stdout = out @ [Generated (Path (arg_output a)) (length class_methods)
                            (sum_list (map (\<lambda>(c, methods). length methods) class_methods))],
          written = Some (Path (arg_output a),
                          generate_cpp_file class_methods (arg_helper_class a))\<rparr>"
  "find_kotlin_files e (args_input a)
     = Inr kotlin_files \<Longrightarrow> kotlin_files \<noteq> [] \<Longrightarrow>
   extract_native_exports e kotlin_files = Inr (class_methods, out) \<Longrightarrow> class_methods \<noteq> [] \<Longrightarrow>
   \<not> open_w e (Path (arg_output a)) \<Longrightarrow>
   main e a = Inl OSError"
  by (simp_all add: main_def Let_def)

text \<open>A run that finds functions and cannot open the output file ends with the exception.\<close>

lemma main_raises_when_output_cannot_be_opened:
  "main ((world [(Path ''A.kt'', ''class A\<newline>@NativeExport fun f()'')] [] [] first_seen)
           \<lparr>open_w := \<lambda>p. False\<rparr>)
        \<lparr>arg_input = [''A.kt''], arg_output = ''missing/jni_loader.cpp'', arg_helper_class = ''H''\<rparr>
   = Inl OSError"
  by code_simp

text \<open>
  C7.  The claim is that a run whose inputs resolve to files without exported functions
  returns exit code 0 after a warning.  For a resolved file without a class or object
  declaration at the start of a line this fails: the run below resolves one file, finds no
  exported function in it, and raises instead of returning 0.
\<close>

theorem main_raises_on_file_without_class:
  "find_kotlin_files (world [(Path ''Util.kt'', ''fun helper() {}'')] [] [] first_seen) [''Util.kt'']
     = Inr [Path ''Util.kt''] \<and>
   finditer_from method_pattern [] ''fun helper() {}'' = [] \<and>
   main (world [(Path ''Util.kt'', ''fun helper() {}'')] [] [] first_seen)
        \<lparr>arg_input = [''Util.kt''], arg_output = ''jni_loader.cpp'',
         arg_helper_class = ''saturn::platform::agdk::JNIHelper''\<rparr>
     = Inl (ReError ''look-behind requires fixed-width pattern'')"
proof -
  let ?w = "world [(Path ''Util.kt'', ''fun helper() {}'')] [] [] first_seen"
  have files: "find_kotlin_files ?w [''Util.kt''] = Inr [Path ''Util.kt'']"
    by code_simp
  have none: "finditer_from method_pattern [] ''fun helper() {}'' = []"
    by code_simp
  have "class_loop [class_pattern1, class_pattern2] ''fun helper() {}'' = Inr None"
    by code_simp
  then have "extract_package_and_class ''fun helper() {}'' (Path ''Util.kt'') =
      Inl (ReError ''look-behind requires fixed-width pattern'')"
    by (rule extract_package_and_class_raises)
  moreover have "read_text ?w (Path ''Util.kt'') = Some ''fun helper() {}''"
    by (simp add: world_def)
  ultimately have "extract_native_exports ?w [Path ''Util.kt''] =
      Inl (ReError ''look-behind requires fixed-width pattern'')"
    by (simp add: extract_native_exports_def first_two_patterns_compile)
  with files none show ?thesis
    by (simp add: main_def args_input_def)
qed

section \<open>Properties of the matcher\<close>

text \<open>A group that is set stays set along every match.\<close>

lemma repeat_keeps:
  assumes "\<And>st m. m \<in> set (body st) \<Longrightarrow> P st \<Longrightarrow> P m"
  shows "m \<in> set (repeat fuel lo hi body st) \<Longrightarrow> P st \<Longrightarrow> P m"
proof (induction fuel arbitrary: lo hi st)
  case 0
  then show ?case by (simp split: if_splits)
next
  case (Suc fuel)
  show ?case
  proof (cases "hi = Some 0")
    case True
    with Suc.prems show ?thesis by simp
  next
    case False
    with Suc.prems(1) consider
      (round) st' where "st' \<in> set (body st)"
        "m \<in> set (repeat fuel (lo - 1) (map_option (\<lambda>h. h - 1) hi) body st')"
      | (stop) "m = st"
      by (auto split: if_splits)
    then show ?thesis
    proof cases
      case round
      from assms [OF round(1) Suc.prems(2)] have "P st'" .
      from Suc.IH [OF round(2) this] show ?thesis .
    next
      case stop
      with Suc.prems(2) show ?thesis by simp
    qed
  qed
qed

lemma rmatch_keeps_group:
  "m \<in> set (rmatch r st) \<Longrightarrow> groups st n \<noteq> None \<Longrightarrow> groups m n \<noteq> None"
proof (induction r arbitrary: st m)
  case (Repeat lo hi r)
  from Repeat.prems(1)
  have "m \<in> set (repeat (lo + length (rest st)) lo hi (rmatch r) st)"
    by simp
  then show ?case
    using Repeat.prems(2)
    by (rule repeat_keeps [where P = "\<lambda>s. groups s n \<noteq> None", rotated]) (rule Repeat.IH)
next
  case (Cat r1 r2)
  then show ?case by auto
next
  case (NotBehind r)
  then show ?case by (auto simp: Let_def split: if_splits list.splits)
qed (auto simp: capture_def split: list.splits if_splits)

text \<open>No match ends before the position where it started.\<close>

lemma rmatch_rest_le: "m \<in> set (rmatch r st) \<Longrightarrow> length (rest m) \<le> length (rest st)"
proof (induction r arbitrary: st m)
  case (Repeat lo hi r)
  from Repeat.prems
  have "m \<in> set (repeat (lo + length (rest st)) lo hi (rmatch r) st)"
    by simp
  moreover have "length (rest st) \<le> length (rest st)"
    by simp
  ultimately show ?case
  proof (rule repeat_keeps [where P = "\<lambda>s. length (rest s) \<le> length (rest st)", rotated])
    fix s m'
    assume "m' \<in> set (rmatch r s)" "length (rest s) \<le> length (rest st)"
    with Repeat.IH [of m' s] show "length (rest m') \<le> length (rest st)"
      by simp
  qed
next
  case (Cat r1 r2)
  from Cat.prems obtain s where "s \<in> set (rmatch r1 st)" "m \<in> set (rmatch r2 s)"
    by auto
  with Cat.IH(1) [of s st] Cat.IH(2) [of m s] show ?case
    by simp
next
  case (NotBehind r)
  then show ?case by (auto simp: Let_def split: if_splits list.splits)
next
  case (Atom cl)
  then show ?case by (cases "rest st") (auto split: if_splits)
qed (auto simp: capture_def split: list.splits if_splits)

text \<open>
  The fuel of a repetition is never used up: with a body that does not move backwards,
  more fuel than the required rounds plus the characters left gives the same matches.
\<close>

lemma repeat_fuel_enough:
  assumes "\<And>st m. m \<in> set (body st) \<Longrightarrow> length (rest m) \<le> length (rest st)"
  shows "lo + length (rest st) \<le> fuel \<Longrightarrow>
         repeat (Suc fuel) lo hi body st = repeat fuel lo hi body st"
proof (induction fuel arbitrary: lo hi st)
  case 0
  then have "lo = 0" "rest st = []"
    by simp_all
  then have "filter (advances lo st) (body st) = []"
    by (simp add: advances_def)
  with \<open>lo = 0\<close> show ?case
    by simp
next
  case (Suc fuel)
  have "repeat (Suc fuel) (lo - 1) (map_option (\<lambda>h. h - 1) hi) body st' =
        repeat fuel (lo - 1) (map_option (\<lambda>h. h - 1) hi) body st'"
    if "st' \<in> set (filter (advances lo st) (body st))" for st'
  proof (rule Suc.IH)
    from that have "st' \<in> set (body st)" "advances lo st st'"
      by simp_all
    with assms [of st' st] Suc.prems show "lo - 1 + length (rest st') \<le> fuel"
      by (auto simp: advances_def)
  qed
  then have "map (repeat (Suc fuel) (lo - 1) (map_option (\<lambda>h. h - 1) hi) body)
                 (filter (advances lo st) (body st)) =
             map (repeat fuel (lo - 1) (map_option (\<lambda>h. h - 1) hi) body)
                 (filter (advances lo st) (body st))"
    by (intro map_cong) simp_all
  then show ?case
    by (simp only: repeat.simps)
qed

lemma rmatch_Repeat_fuel:
  "lo + length (rest st) \<le> fuel \<Longrightarrow>
   repeat fuel lo hi (rmatch r) st = rmatch (Repeat lo hi r) st"
proof (induction fuel)
  case 0
  then show ?case by simp
next
  case (Suc fuel)
  show ?case
  proof (cases "lo + length (rest st) \<le> fuel")
    case True
    with Suc.IH repeat_fuel_enough [of "rmatch r" lo st fuel hi] show ?thesis
      by (simp add: rmatch_rest_le)
  next
    case False
    with Suc.prems have "Suc fuel = lo + length (rest st)"
      by simp
    then show ?thesis by simp
  qed
qed

lemma sets_group_Group: "sets_group n (Cat (Group n r) r')"
  unfolding sets_group_def
proof (intro allI impI)
  fix st m
  assume "m \<in> set (rmatch (Cat (Group n r) r') st)"
  then obtain x where "m \<in> set (rmatch r' (capture n st x))"
    by auto
  moreover have "groups (capture n st x) n \<noteq> None"
    by (simp add: capture_def)
  ultimately show "groups m n \<noteq> None"
    by (rule rmatch_keeps_group)
qed

lemma sets_group_Cat: "sets_group n r' \<Longrightarrow> sets_group n (Cat r r')"
  by (auto simp: sets_group_def)

lemma method_pattern_sets_groups: "sets_group 1 method_pattern" "sets_group 2 method_pattern"
  unfolding method_pattern_def seq_def foldr.simps o_apply
  by (rule sets_group_Group | rule sets_group_Cat)+

lemma match_at_in_rmatch:
  "match_at r bef rst = Some m \<Longrightarrow> \<exists>st. m \<in> set (rmatch r st)"
  by (auto simp: match_at_def split: list.splits intro: exI [of _ "\<lparr>behind = bef, rest = rst, groups = Map.empty\<rparr>"])

lemma search_from_in_rmatch:
  "search_from r bef rst = Some m \<Longrightarrow> \<exists>st. m \<in> set (rmatch r st)"
  by (induction r bef rst rule: search_from.induct)
     (auto split: option.splits dest: match_at_in_rmatch)

lemma finditer_from_in_rmatch:
  "m \<in> set (finditer_from r bef rst) \<Longrightarrow> \<exists>st. m \<in> set (rmatch r st)"
proof (induction r bef rst rule: finditer_from.induct)
  case (1 r bef rst)
  show ?case
  proof (cases "search_from r bef rst")
    case None
    with "1.prems" show ?thesis
      by (subst (asm) finditer_from.simps) simp
  next
    case (Some m0)
    show ?thesis
    proof (cases "m = m0")
      case True
      with Some show ?thesis
        by (auto dest: search_from_in_rmatch)
    next
      case False
      show ?thesis
      proof (cases "length (rest m0) < length rst")
        case True
        with "1.prems" Some \<open>m \<noteq> m0\<close>
        have "m \<in> set (finditer_from r (behind m0) (rest m0))"
          by (subst (asm) finditer_from.simps) simp
        from "1.IH"(1) [OF Some True this] show ?thesis .
      next
        case short: False
        show ?thesis
        proof (cases rst)
          case Nil
          with "1.prems" Some short \<open>m \<noteq> m0\<close> show ?thesis
            by (subst (asm) finditer_from.simps) simp
        next
          case (Cons c cs)
          with "1.prems" Some short \<open>m \<noteq> m0\<close>
          have "m \<in> set (finditer_from r (c # bef) cs)"
            by (subst (asm) finditer_from.simps) simp
          from "1.IH"(2) [OF Some short Cons this] show ?thesis .
        qed
      qed
    qed
  qed
qed

lemma method_match_groups:
  "m \<in> set (finditer_from method_pattern bef rst) \<Longrightarrow>
     groups m 1 \<noteq> None \<and> groups m 2 \<noteq> None"
  using method_pattern_sets_groups finditer_from_in_rmatch [of m method_pattern bef rst]
  by (auto simp: sets_group_def)

lemma consumes_Atom: "consumes (Cat (Atom cl) r)"
  unfolding consumes_def
proof (intro allI impI)
  fix st m
  assume "m \<in> set (rmatch (Cat (Atom cl) r) st)"
  then obtain s where s: "s \<in> set (rmatch (Atom cl) st)" and m: "m \<in> set (rmatch r s)"
    by auto
  from s have "length (rest s) < length (rest st)"
    by (cases "rest st") (auto split: if_splits)
  with rmatch_rest_le [OF m] show "length (rest m) < length (rest st)"
    by simp
qed

lemma consumes_CatL: "consumes r1 \<Longrightarrow> consumes (Cat r1 r2)"
  unfolding consumes_def
proof (intro allI impI)
  fix st m
  assume r1: "\<forall>st m. m \<in> set (rmatch r1 st) \<longrightarrow> length (rest m) < length (rest st)"
    and "m \<in> set (rmatch (Cat r1 r2) st)"
  then obtain s where s: "s \<in> set (rmatch r1 st)" and m: "m \<in> set (rmatch r2 s)"
    by auto
  from r1 s have "length (rest s) < length (rest st)"
    by blast
  with rmatch_rest_le [OF m] show "length (rest m) < length (rest st)"
    by simp
qed

lemma consumes_CatR: "consumes r2 \<Longrightarrow> consumes (Cat r1 r2)"
  unfolding consumes_def
proof (intro allI impI)
  fix st m
  assume r2: "\<forall>st m. m \<in> set (rmatch r2 st) \<longrightarrow> length (rest m) < length (rest st)"
    and "m \<in> set (rmatch (Cat r1 r2) st)"
  then obtain s where s: "s \<in> set (rmatch r1 st)" and m: "m \<in> set (rmatch r2 s)"
    by auto
  from r2 m have "length (rest m) < length (rest s)"
    by blast
  with rmatch_rest_le [OF s] show "length (rest m) < length (rest st)"
    by simp
qed

lemma consumes_Alt: "consumes r1 \<Longrightarrow> consumes r2 \<Longrightarrow> consumes (Alt r1 r2)"
  by (auto simp: consumes_def)

lemma consumes_lit: "consumes (Cat (lit (c # cs)) r)"
  unfolding lit_def chr_def foldr.simps o_apply
  by (rule consumes_CatL) (rule consumes_Atom)

lemma consumes_lit_alone: "consumes (lit (c # cs))"
  unfolding lit_def chr_def foldr.simps o_apply
  by (rule consumes_Atom)

text \<open>Every match of the patterns that the generator iterates over consumes text.\<close>

lemma patterns_consume:
  "consumes method_pattern" "consumes class_pattern1" "consumes class_pattern2"
proof -
  show "consumes method_pattern"
    unfolding method_pattern_def seq_def foldr.simps o_apply
    by (rule consumes_CatR) (rule consumes_lit)
  have word: "consumes (Cat (alts [lit ''class'', lit ''object'']) r)" for r
    by (simp only: alts.simps) (intro consumes_CatL consumes_Alt consumes_lit_alone)
  show "consumes class_pattern1"
    unfolding class_pattern1_def seq_def foldr.simps o_apply
    by (rule consumes_CatR, rule consumes_CatR, rule consumes_CatR) (rule word)
  show "consumes class_pattern2"
    unfolding class_pattern2_def seq_def foldr.simps o_apply
    by (rule consumes_CatR, rule consumes_CatR, rule consumes_CatR) (rule word)
qed



lemma search_from_start:
  "search_from r bef rst = Some m \<Longrightarrow>
     \<exists>st. m \<in> set (rmatch r st) \<and> length (rest st) \<le> length rst"
proof (induction r bef rst rule: search_from.induct)
  case (1 r bef)
  then show ?case
    by (auto simp: match_at_def split: list.splits
             intro!: exI [of _ "\<lparr>behind = bef, rest = [], groups = Map.empty\<rparr>"])
next
  case (2 r bef c cs)
  show ?case
  proof (cases "match_at r bef (c # cs)")
    case None
    with "2.prems" have "search_from r (c # bef) cs = Some m"
      by simp
    from "2.IH" [OF None this] show ?thesis
      by auto
  next
    case (Some m')
    with "2.prems" have "m' = m"
      by simp
    with Some show ?thesis
      by (auto simp: match_at_def split: list.splits
               intro!: exI [of _ "\<lparr>behind = bef, rest = c # cs, groups = Map.empty\<rparr>"])
  qed
qed

text \<open>
  So for these patterns each search of \<open>finditer\<close> starts where the last match ended, and
  the step after an empty match is never taken.
\<close>

lemma finditer_from_consuming:
  assumes "consumes r"
  shows "finditer_from r bef rst =
     (case search_from r bef rst of
        None \<Rightarrow> []
      | Some m \<Rightarrow> m # finditer_from r (behind m) (rest m))"
proof (cases "search_from r bef rst")
  case None
  then show ?thesis
    by (subst finditer_from.simps) simp
next
  case (Some m)
  from search_from_start [OF Some] obtain st
    where "m \<in> set (rmatch r st)" "length (rest st) \<le> length rst"
    by blast
  with assms have "length (rest m) < length rst"
    unfolding consumes_def by fastforce
  with Some show ?thesis
    by (subst finditer_from.simps) simp
qed

section \<open>Properties of the Extractor\<close>

lemma param_loop_no_raise: "param_loop fname ps sig_parts \<noteq> Inl err"
proof (induction ps arbitrary: sig_parts)
  case Nil
  show ?case by simp
next
  case (Cons p ps)
  show ?case
    using Cons.IH kotlin_to_jni_type_no_raise
    by (auto simp: Let_def split: prod.splits sum.splits option.splits)
qed

lemma process_match_no_raise:
  "groups m 1 \<noteq> None \<Longrightarrow> groups m 2 \<noteq> None \<Longrightarrow> process_match m \<noteq> Inl err"
  using param_loop_no_raise kotlin_to_jni_type_no_raise
  by (auto simp: process_match_def Let_def split: prod.splits sum.splits option.splits if_splits)

lemma methods_loop_eq:
  "\<forall>m\<in>set ms. \<forall>err. process_match m \<noteq> Inl err \<Longrightarrow>
   methods_loop ms methods_found out =
     Inr (methods_found @ concat (map method_of ms), out @ concat (map printed_by ms))"
proof (induction ms arbitrary: methods_found out)
  case Nil
  show ?case by simp
next
  case (Cons m ms)
  then obtain r printed where m: "process_match m = Inr (r, printed)"
    by (cases "process_match m") auto
  from Cons.prems have "\<forall>m\<in>set ms. \<forall>err. process_match m \<noteq> Inl err"
    by simp
  note IH = Cons.IH [OF this]
  show ?case
    by (cases r) (simp_all add: m IH method_of_def printed_by_def)
qed

lemma methods_loop_in_file:
  "methods_loop (finditer_from method_pattern [] text) [] [] =
     Inr (concat (map method_of (finditer_from method_pattern [] text)),
          concat (map printed_by (finditer_from method_pattern [] text)))"
  using methods_loop_eq [of "finditer_from method_pattern [] text" "[]" "[]"]
    method_match_groups process_match_no_raise
  by fastforce

lemma files_loop_eq:
  assumes "\<forall>f\<in>set files. read_text e f = Some (text f) \<and>
             extract_package_and_class (text f) f = Inr (Some (cls f))"
  shows "files_loop e method_pattern files class_methods out =
     Inr (foldl (\<lambda>cm (c, ms). if ms \<noteq> [] then dict_extend cm c ms else cm) class_methods
            (map (\<lambda>f. (cls f, concat (map method_of (finditer_from method_pattern [] (text f)))))
                 files),
          out @ concat (map (\<lambda>f. concat (map printed_by (finditer_from method_pattern [] (text f))))
                            files))"
  using assms
proof (induction files arbitrary: class_methods out)
  case Nil
  show ?case by simp
next
  case (Cons f files)
  from Cons.prems have f: "read_text e f = Some (text f)"
    "extract_package_and_class (text f) f = Inr (Some (cls f))"
    by simp_all
  from f(2) have ne: "cls f \<noteq> []"
    by (auto dest: extract_package_and_class_nonempty)
  from Cons.prems have "\<forall>f\<in>set files. read_text e f = Some (text f) \<and>
             extract_package_and_class (text f) f = Inr (Some (cls f))"
    by simp
  note IH = Cons.IH [OF this]
  show ?case
    by (simp add: f ne methods_loop_in_file IH)
qed

lemma concat_no_functions:
  "c \<notin> set (map fst (filter (\<lambda>(c, ms). ms \<noteq> []) per_file)) \<Longrightarrow>
   concat (map snd (filter (\<lambda>(c', ms). c' = c) per_file)) = []"
proof (induction per_file)
  case Nil
  show ?case by simp
next
  case (Cons x per_file)
  obtain c' ms where x: "x = (c', ms)" by (cases x)
  from Cons.prems have "c \<notin> set (map fst (filter (\<lambda>(c, ms). ms \<noteq> []) per_file))"
    by (simp add: x split: if_splits)
  from Cons.IH [OF this] have IH: "concat (map snd (filter (\<lambda>(c', ms). c' = c) per_file)) = []" .
  show ?case
  proof (cases "c' = c")
    case True
    with Cons.prems have "ms = []"
      by (auto simp: x split: if_splits)
    with True IH show ?thesis
      by (simp add: x)
  next
    case False
    with IH show ?thesis
      by (simp add: x)
  qed
qed

lemma first_seen_snoc:
  "first_seen (xs @ [x]) = (if x \<in> set xs then first_seen xs else first_seen xs @ [x])"
  by (simp add: first_seen_def)

lemma grouping_keys:
  "map fst (grouping per_file) = first_seen (map fst (filter (\<lambda>(c, ms). ms \<noteq> []) per_file))"
  by (simp add: grouping_def comp_def)


lemma grouping_snoc_empty: "grouping (per_file @ [(c, [])]) = grouping per_file"
  by (simp add: grouping_def)

lemma grouping_snoc_known:
  assumes "ms \<noteq> []" and "c \<in> set (map fst (filter (\<lambda>(c, ms). ms \<noteq> []) per_file))"
  shows "grouping (per_file @ [(c, ms)]) = dict_extend (grouping per_file) c ms"
proof -
  have "c \<in> set (map fst (grouping per_file))"
    using assms(2) by (simp only: grouping_keys set_first_seen)
  then have "dict_extend (grouping per_file) c ms =
      map (\<lambda>(k, v). if k = c then (k, v @ ms) else (k, v)) (grouping per_file)"
    by (simp only: dict_extend_def if_True)
  also have "\<dots> = grouping (per_file @ [(c, ms)])"
    using assms by (simp add: grouping_def first_seen_snoc comp_def)
  finally show ?thesis ..
qed


lemma grouping_snoc_new:
  assumes "ms \<noteq> []" and "c \<notin> set (map fst (filter (\<lambda>(c, ms). ms \<noteq> []) per_file))"
  shows "grouping (per_file @ [(c, ms)]) = dict_extend (grouping per_file) c ms"
proof -
  have "c \<notin> set (map fst (grouping per_file))"
    using assms(2) by (simp only: grouping_keys set_first_seen not_False_eq_True)
  then have ext: "dict_extend (grouping per_file) c ms = grouping per_file @ [(c, ms)]"
    by (simp only: dict_extend_def if_False)
  have none: "concat (map snd (filter (\<lambda>(c', ms). c' = c) per_file)) = []"
    using assms(2) by (rule concat_no_functions)
  have old: "map (\<lambda>c0. (c0, concat (map snd (filter (\<lambda>(c', ms). c' = c0) per_file))
                      @ (if c = c0 then ms else [])))
               (first_seen (map fst (filter (\<lambda>(c, ms). ms \<noteq> []) per_file)))
           = grouping per_file"
    unfolding grouping_def
  proof (rule map_cong [OF refl])
    fix c0
    assume "c0 \<in> set (first_seen (map fst (filter (\<lambda>(c, ms). ms \<noteq> []) per_file)))"
    with assms(2) have "c \<noteq> c0"
      by (auto simp only: set_first_seen)
    then show "(c0, concat (map snd (filter (\<lambda>(c', ms). c' = c0) per_file))
                      @ (if c = c0 then ms else []))
        = (c0, concat (map snd (filter (\<lambda>(c', ms). c' = c0) per_file)))"
      by simp
  qed
  have "grouping (per_file @ [(c, ms)]) =
      map (\<lambda>c0. (c0, concat (map snd (filter (\<lambda>(c', ms). c' = c0) per_file))
                      @ (if c = c0 then ms else [])))
          (first_seen (map fst (filter (\<lambda>(c, ms). ms \<noteq> []) per_file)) @ [c])"
    using assms by (simp add: grouping_def first_seen_snoc)
  also have "\<dots> = grouping per_file @ [(c, ms)]"
    using old none by simp
  finally show ?thesis
    using ext by simp
qed

lemma grouping_snoc:
  "grouping (per_file @ [(c, ms)]) =
     (if ms \<noteq> [] then dict_extend (grouping per_file) c ms else grouping per_file)"
  using grouping_snoc_empty [of per_file c] grouping_snoc_known [of ms c per_file]
    grouping_snoc_new [of ms c per_file]
  by (cases "ms = []") auto

lemma foldl_extend_grouping:
  "foldl (\<lambda>cm (c, ms). if ms \<noteq> [] then dict_extend cm c ms else cm) [] per_file = grouping per_file"
proof (induction per_file rule: rev_induct)
  case Nil
  show ?case by (simp add: grouping_def first_seen_def)
next
  case (snoc x per_file)
  obtain c ms where x: "x = (c, ms)" by (cases x)
  show ?case
    unfolding x by (simp add: snoc.IH grouping_snoc)
qed

lemma grouping_length:
  "length (grouping per_file) = card (fst ` {x \<in> set per_file. snd x \<noteq> []})"
proof -
  have "length (grouping per_file) =
      length (first_seen (map fst (filter (\<lambda>(c, ms). ms \<noteq> []) per_file)))"
    by (simp add: grouping_def)
  also have "\<dots> = card (set (first_seen (map fst (filter (\<lambda>(c, ms). ms \<noteq> []) per_file))))"
    by (rule distinct_card [symmetric]) (rule distinct_first_seen)
  also have "set (first_seen (map fst (filter (\<lambda>(c, ms). ms \<noteq> []) per_file))) =
      fst ` {x \<in> set per_file. snd x \<noteq> []}"
    by (auto simp: case_prod_beta)
  finally show ?thesis .
qed

lemma total_dict_extend:
  "distinct (map fst cm) \<Longrightarrow>
   sum_list (map (\<lambda>(c, ms). length ms) (dict_extend cm c ms)) =
     sum_list (map (\<lambda>(c, ms). length ms) cm) + length ms"
proof (cases "c \<in> set (map fst cm)")
  case False
  then show ?thesis
    by (simp add: dict_extend_def)
next
  case True
  assume "distinct (map fst cm)"
  with True have "sum_list (map (\<lambda>(c, ms). length ms)
        (map (\<lambda>(k, v). if k = c then (k, v @ ms) else (k, v)) cm)) =
      sum_list (map (\<lambda>(c, ms). length ms) cm) + length ms"
  proof (induction cm)
    case Nil
    then show ?case by simp
  next
    case (Cons x cm)
    obtain k v where x: "x = (k, v)" by (cases x)
    show ?case
    proof (cases "k = c")
      case True
      with Cons.prems x have "c \<notin> set (map fst cm)"
        by auto
      then have "map (\<lambda>(k, v). if k = c then (k, v @ ms) else (k, v)) cm = cm"
        by (induction cm) auto
      with True x show ?thesis by simp
    next
      case False
      with Cons.prems x have "c \<in> set (map fst cm)" "distinct (map fst cm)"
        by auto
      from Cons.IH [OF this] False x show ?thesis by simp
    qed
  qed
  with True show ?thesis
    by (simp add: dict_extend_def)
qed

lemma grouping_total:
  "sum_list (map (\<lambda>(c, ms). length ms) (grouping per_file)) =
     sum_list (map (\<lambda>(c, ms). length ms) per_file)"
proof (induction per_file rule: rev_induct)
  case Nil
  show ?case by (simp add: grouping_def first_seen_def)
next
  case (snoc x per_file)
  obtain c ms where x: "x = (c, ms)" by (cases x)
  have "distinct (map fst (grouping per_file))"
    by (simp only: grouping_keys distinct_first_seen)
  from total_dict_extend [OF this] snoc.IH show ?case
    unfolding x by (simp add: grouping_snoc)
qed

lemma grouping_entry:
  "(c, ms) \<in> set (grouping per_file) \<Longrightarrow>
     ms = concat (map snd (filter (\<lambda>(c', ms). c' = c) per_file))"
  by (auto simp: grouping_def)

subsection \<open>The extractor in closed form\<close>

lemma class_patterns_set_group: "sets_group 1 class_pattern1" "sets_group 1 class_pattern2"
proof -
  show "sets_group 1 class_pattern1"
    unfolding class_pattern1_def seq_def foldr.simps o_apply
    by (rule sets_group_Group | rule sets_group_Cat)+
  show "sets_group 1 class_pattern2"
    unfolding class_pattern2_def seq_def foldr.simps o_apply
    by (rule sets_group_Group | rule sets_group_Cat)+
qed

lemma first_candidate_no_raise:
  "\<forall>m\<in>set ms. groups m 1 \<noteq> None \<Longrightarrow> first_candidate ms \<noteq> Inl err"
  by (induction ms) (auto split: option.splits)

lemma class_match_group:
  assumes "sets_group 1 r"
  shows "\<forall>m\<in>set (finditer_from r bef rst). groups m 1 \<noteq> None"
proof
  fix m
  assume "m \<in> set (finditer_from r bef rst)"
  then obtain st where "m \<in> set (rmatch r st)"
    by (auto dest: finditer_from_in_rmatch)
  with assms show "groups m 1 \<noteq> None"
    unfolding sets_group_def by blast
qed

text \<open>The only exception the owning-class determination raises is the one of the third pattern.\<close>

lemma re_finditer_first_two:
  "re_finditer class_pattern1 file_content = Inr (finditer_from class_pattern1 [] file_content)"
  "re_finditer class_pattern2 file_content = Inr (finditer_from class_pattern2 [] file_content)"
  by (simp_all add: re_finditer_def first_two_patterns_compile)

lemma class_loop_error:
  "class_loop class_patterns file_content = Inl err \<Longrightarrow>
     err = ReError ''look-behind requires fixed-width pattern''"
  using first_candidate_no_raise [OF class_match_group [OF class_patterns_set_group(1)]]
    first_candidate_no_raise [OF class_match_group [OF class_patterns_set_group(2)]]
  by (auto simp: class_patterns_def class_pattern3_raises re_finditer_first_two
        split: sum.splits if_splits)

lemma extract_package_and_class_error:
  "extract_package_and_class file_content file_path = Inl err \<Longrightarrow>
     err = ReError ''look-behind requires fixed-width pattern''"
  unfolding extract_package_and_class_def Let_def re_search_def
  by (auto simp: first_two_patterns_compile split: sum.splits option.splits if_splits
        dest: class_loop_error class_loop_found_or_raises)

lemma scan_file_error:
  "scan_file e f = Inl err \<Longrightarrow> err = ReError ''look-behind requires fixed-width pattern''"
  by (auto simp: scan_file_def split: option.splits sum.splits if_splits
        dest: extract_package_and_class_error)

text \<open>The loop over the files, file by file.\<close>

lemma files_loop_Cons:
  "files_loop e method_pattern (f # fs) class_methods out =
     (case scan_file e f of
        Inl err \<Rightarrow> Inl err
      | Inr (None, printed) \<Rightarrow> files_loop e method_pattern fs class_methods (out @ printed)
      | Inr (Some (class_name, methods_found), printed) \<Rightarrow>
          files_loop e method_pattern fs
            (if methods_found \<noteq> [] then dict_extend class_methods class_name methods_found
             else class_methods)
            (out @ printed))"
  by (simp add: scan_file_def methods_loop_in_file split: option.splits sum.splits)

lemma files_loop_scanned:
  "\<forall>f\<in>set files. \<forall>err. scan_file e f \<noteq> Inl err \<Longrightarrow>
   files_loop e method_pattern files class_methods out =
     Inr (foldl (\<lambda>cm (c, ms). if ms \<noteq> [] then dict_extend cm c ms else cm) class_methods
            (scanned e files),
          out @ printed_in e files)"
proof (induction files arbitrary: class_methods out)
  case Nil
  show ?case by (simp add: scanned_def printed_in_def)
next
  case (Cons f files)
  from Cons.prems obtain r printed where f: "scan_file e f = Inr (r, printed)"
    by (cases "scan_file e f") auto
  from Cons.prems have "\<forall>f\<in>set files. \<forall>err. scan_file e f \<noteq> Inl err"
    by simp
  note IH = Cons.IH [OF this]
  show ?case
  proof (cases r)
    case None
    show ?thesis
      unfolding files_loop_Cons f None
      by (simp add: IH scanned_def printed_in_def f None del: files_loop.simps)
  next
    case (Some x)
    obtain c ms where x: "x = (c, ms)" by (cases x)
    show ?thesis
      unfolding files_loop_Cons f Some x
      by (simp add: IH scanned_def printed_in_def f Some x del: files_loop.simps)
  qed
qed

lemma files_loop_raises:
  "f \<in> set files \<Longrightarrow> scan_file e f = Inl err \<Longrightarrow>
   files_loop e method_pattern files class_methods out =
     Inl (ReError ''look-behind requires fixed-width pattern'')"
proof (induction files arbitrary: class_methods out)
  case Nil
  then show ?case by simp
next
  case (Cons g files)
  show ?case
  proof (cases "scan_file e g")
    case (Inl err')
    with scan_file_error [OF Inl] show ?thesis
      unfolding files_loop_Cons by simp
  next
    case (Inr r)
    with Cons.prems have "f \<in> set files"
      by auto
    note IH = Cons.IH [OF this Cons.prems(2)]
    show ?thesis
      unfolding files_loop_Cons Inr
      by (simp add: IH split: prod.splits option.splits del: files_loop.simps)
  qed
qed

text \<open>
  The extractor in closed form: it raises when the scan of one of the files raises, and
  else returns the grouping of what the files give, in the order of the list.
\<close>

lemma extract_native_exports_closed:
  "extract_native_exports e files =
     (if \<exists>f\<in>set files. \<exists>err. scan_file e f = Inl err
      then Inl (ReError ''look-behind requires fixed-width pattern'')
      else Inr (grouping (scanned e files), printed_in e files))"
proof (cases "\<exists>f\<in>set files. \<exists>err. scan_file e f = Inl err")
  case True
  then obtain f err where "f \<in> set files" "scan_file e f = Inl err"
    by blast
  from files_loop_raises [OF this] True show ?thesis
    by (simp add: extract_native_exports_def first_two_patterns_compile)
next
  case False
  then have "\<forall>f\<in>set files. \<forall>err. scan_file e f \<noteq> Inl err"
    by blast
  from files_loop_scanned [OF this, of "[]" "[]"] False show ?thesis
    by (simp add: extract_native_exports_def first_two_patterns_compile foldl_extend_grouping)
qed

text \<open>
  A file whose class has two modifiers is a file for which the extractor raises, though it
  declares a class and an exported function.
\<close>

lemma extractor_raises_on_class_with_two_modifiers:
  "extract_native_exports
     (world [(Path ''Foo.kt'', ''public final class Foo {\<newline>@NativeExport fun f()\<newline>}'')]
            [] [] first_seen)
     [Path ''Foo.kt'']
   = Inl (ReError ''look-behind requires fixed-width pattern'')"
  by code_simp

subsection \<open>Grouping by class\<close>

lemma length_concat_singletons:
  "\<forall>m\<in>set ms. \<exists>x. g m = [x] \<Longrightarrow> length (concat (map g ms)) = length ms"
  by (induction ms) auto

lemma concat_all_empty: "\<forall>m\<in>set ms. g m = [] \<Longrightarrow> concat (map g ms) = []"
  by (induction ms) auto

text \<open>
  The extractor on files that can be read and have an owning class, when every function the
  method pattern finds maps without a warning.
\<close>

lemma grouping_of_files_with_class:
  assumes "\<forall>f\<in>set files.
             read_text e f = Some (text f) \<and>
             extract_package_and_class (text f) f = Inr (Some (cls f)) \<and>
             (\<forall>m\<in>set (finditer_from method_pattern [] (text f)).
                \<exists>method. process_match m = Inr (Some method, []))"
  shows "let declared = (\<lambda>f. finditer_from method_pattern [] (text f));
             bindings = grouping (map (\<lambda>f. (cls f, concat (map method_of (declared f)))) files)
         in extract_native_exports e files = Inr (bindings, []) \<and>
            length bindings = card (cls ` {f \<in> set files. declared f \<noteq> []}) \<and>
            sum_list (map (\<lambda>(c, ms). length ms) bindings) =
              sum_list (map (\<lambda>f. length (declared f)) files) \<and>
            map fst bindings = first_seen (map cls (filter (\<lambda>f. declared f \<noteq> []) files)) \<and>
            (\<forall>c ms. (c, ms) \<in> set bindings \<longrightarrow>
               ms = concat (map (\<lambda>f. concat (map method_of (declared f)))
                                (filter (\<lambda>f. cls f = c) files)))"
proof -
  define declared where "declared f = finditer_from method_pattern [] (text f)" for f
  define found where "found f = concat (map method_of (declared f))" for f
  define per_file where "per_file = map (\<lambda>f. (cls f, found f)) files"
  have readable: "read_text e f = Some (text f) \<and>
      extract_package_and_class (text f) f = Inr (Some (cls f))" if "f \<in> set files" for f
    using assms that by blast
  have ok: "\<exists>method. process_match m = Inr (Some method, [])"
    if "f \<in> set files" "m \<in> set (declared f)" for f m
    using assms that unfolding declared_def by blast
  have one: "\<forall>m\<in>set (declared f). \<exists>x. method_of m = [x]" if "f \<in> set files" for f
    using ok [OF that] by (fastforce simp: method_of_def)
  have quiet: "\<forall>m\<in>set (declared f). printed_by m = []" if "f \<in> set files" for f
    using ok [OF that] by (fastforce simp: printed_by_def)
  have len: "length (found f) = length (declared f)" if "f \<in> set files" for f
    unfolding found_def using one [OF that] by (rule length_concat_singletons)
  have ne: "found f \<noteq> [] \<longleftrightarrow> declared f \<noteq> []" if "f \<in> set files" for f
    using len [OF that] by (metis length_0_conv)
  have printed: "concat (map (\<lambda>f. concat (map printed_by (declared f))) files) = []"
    by (rule concat_all_empty) (simp add: quiet concat_all_empty)
  have "files_loop e method_pattern files [] [] =
      Inr (foldl (\<lambda>cm (c, ms). if ms \<noteq> [] then dict_extend cm c ms else cm) [] per_file,
           [] @ concat (map (\<lambda>f. concat (map printed_by (declared f))) files))"
    unfolding per_file_def found_def declared_def
    using readable by (intro files_loop_eq) blast
  then have run: "extract_native_exports e files = Inr (grouping per_file, [])"
    by (simp add: extract_native_exports_def first_two_patterns_compile foldl_extend_grouping
          printed)
  have "fst ` {x \<in> set per_file. snd x \<noteq> []} = cls ` {f \<in> set files. declared f \<noteq> []}"
    unfolding per_file_def using ne by force
  then have M: "length (grouping per_file) = card (cls ` {f \<in> set files. declared f \<noteq> []})"
    by (simp add: grouping_length)
  have "sum_list (map (\<lambda>(c, ms). length ms) per_file) = sum_list (map (\<lambda>f. length (found f)) files)"
    by (simp add: per_file_def comp_def)
  also have "\<dots> = sum_list (map (\<lambda>f. length (declared f)) files)"
    using len by (intro arg_cong [where f = sum_list] map_cong) simp_all
  finally have N: "sum_list (map (\<lambda>(c, ms). length ms) (grouping per_file)) =
      sum_list (map (\<lambda>f. length (declared f)) files)"
    by (simp add: grouping_total)
  have "map fst (filter (\<lambda>(c, ms). ms \<noteq> []) per_file) =
      map cls (filter (\<lambda>f. found f \<noteq> []) files)"
    by (simp add: per_file_def filter_map comp_def)
  also have "filter (\<lambda>f. found f \<noteq> []) files = filter (\<lambda>f. declared f \<noteq> []) files"
    using ne by (intro filter_cong) simp_all
  finally have order: "map fst (grouping per_file) =
      first_seen (map cls (filter (\<lambda>f. declared f \<noteq> []) files))"
    by (simp add: grouping_keys)
  have members: "ms = concat (map found (filter (\<lambda>f. cls f = c) files))"
    if "(c, ms) \<in> set (grouping per_file)" for c ms
  proof -
    have "map snd (filter (\<lambda>(c', ms). c' = c) per_file) = map found (filter (\<lambda>f. cls f = c) files)"
      by (simp add: per_file_def filter_map comp_def)
    with grouping_entry [OF that] show ?thesis by simp
  qed
  show ?thesis
    unfolding Let_def
    using run M N order members
    unfolding per_file_def found_def declared_def
    by blast
qed

lemma all_from_map: "map g ms = ys \<Longrightarrow> \<forall>y\<in>set ys. P y \<Longrightarrow> \<forall>m\<in>set ms. P (g m)"
  by auto




subsection \<open>Functions with unknown types\<close>

text \<open>
  A function with a parameter of unknown type, in a file that can be read and has an owning
  class.
\<close>

lemma unknown_type_in_file_with_class:
  assumes "read_text e f = Some text"
    and "extract_package_and_class text f = Inr (Some c)"
    and "finditer_from method_pattern [] text = ms1 @ bad # ms2"
    and "process_match bad = Inr (None, [UnknownParameterType fname ty])"
    and "good \<in> set (ms1 @ ms2)"
    and "process_match good = Inr (Some sibling, printed)"
  shows "extract_native_exports e [f] =
           Inr ([(c, concat (map method_of (ms1 @ ms2)))],
                concat (map printed_by ms1) @ [UnknownParameterType fname ty]
                @ concat (map printed_by ms2)) \<and>
         sibling \<in> set (concat (map method_of (ms1 @ ms2)))"
proof -
  have bad: "method_of bad = []" "printed_by bad = [UnknownParameterType fname ty]"
    using assms(4) by (simp_all add: method_of_def printed_by_def)
  have "method_of good = [sibling]"
    using assms(6) by (simp add: method_of_def)
  with assms(5) have sibling: "sibling \<in> set (concat (map method_of (ms1 @ ms2)))"
    by force
  then have ne: "concat (map method_of (ms1 @ ms2)) \<noteq> []"
    by auto
  have "files_loop e method_pattern [f] [] [] =
      Inr (foldl (\<lambda>cm (c, ms). if ms \<noteq> [] then dict_extend cm c ms else cm) []
             (map (\<lambda>f. (c, concat (map method_of (finditer_from method_pattern [] text)))) [f]),
           [] @ concat (map (\<lambda>f. concat (map printed_by (finditer_from method_pattern [] text))) [f]))"
    using assms(1,2) by (intro files_loop_eq) simp
  also have "concat (map method_of (finditer_from method_pattern [] text)) =
      concat (map method_of (ms1 @ ms2))"
    unfolding assms(3) using bad by simp
  also have "concat (map printed_by (finditer_from method_pattern [] text)) =
      concat (map printed_by ms1) @ [UnknownParameterType fname ty] @ concat (map printed_by ms2)"
    unfolding assms(3) using bad by simp
  finally have "files_loop e method_pattern [f] [] [] =
      Inr ([(c, concat (map method_of (ms1 @ ms2)))],
           concat (map printed_by ms1) @ [UnknownParameterType fname ty]
           @ concat (map printed_by ms2))"
    using ne by (simp add: dict_extend_def)
  then show ?thesis
    using sibling by (simp add: extract_native_exports_def first_two_patterns_compile)
qed




section \<open>Reproducibility of the output\<close>

text \<open>What does not depend on the order of a list.\<close>

lemma mset_concat_map:
  "mset xs = mset ys \<Longrightarrow> mset (concat (map g xs)) = mset (concat (map g ys))"
proof -
  have "mset (concat (map g zs)) = (\<Sum>z\<in>#mset zs. mset (g z))" for zs
    by (induction zs) simp_all
  then show "mset xs = mset ys \<Longrightarrow> ?thesis"
    by simp
qed

lemma sum_list_map_mset:
  "mset xs = mset ys \<Longrightarrow> sum_list (map (h :: 'a \<Rightarrow> nat) xs) = sum_list (map h ys)"
proof -
  have "sum_list (map h zs) = (\<Sum>z\<in>#mset zs. h z)" for zs
    by (induction zs) simp_all
  then show "mset xs = mset ys \<Longrightarrow> ?thesis"
    by simp
qed

lemma scanned_mset:
  "mset files = mset files' \<Longrightarrow> mset (scanned e files) = mset (scanned e files')"
  unfolding scanned_def by (rule mset_concat_map)

lemma printed_in_mset:
  "mset files = mset files' \<Longrightarrow> mset (printed_in e files) = mset (printed_in e files')"
  unfolding printed_in_def by (rule mset_concat_map)

lemma grouping_keys_set:
  "set (map fst (grouping per_file)) = fst ` {x \<in> set per_file. snd x \<noteq> []}"
  by (auto simp: grouping_keys case_prod_beta)

lemma grouping_empty: "grouping per_file = [] \<longleftrightarrow> (\<forall>x\<in>set per_file. snd x = [])"
proof -
  have "grouping per_file = [] \<longleftrightarrow> set (map fst (grouping per_file)) = {}"
    by simp
  also have "\<dots> \<longleftrightarrow> (\<forall>x\<in>set per_file. snd x = [])"
    unfolding grouping_keys_set by auto
  finally show ?thesis .
qed

text \<open>The functions of a class in a grouping are the functions of the class in the files.\<close>

lemma filter_eq_distinct:
  "distinct ks \<Longrightarrow> filter (\<lambda>k. k = c) ks = (if c \<in> set ks then [c] else [])"
  by (induction ks) auto

lemma grouping_class:
  "concat (map snd (filter (\<lambda>x. fst x = c) (grouping per_file))) =
   concat (map snd (filter (\<lambda>x. fst x = c) per_file))"
proof -
  define keys where "keys = first_seen (map fst (filter (\<lambda>(c, ms). ms \<noteq> []) per_file))"
  let ?G = "\<lambda>k. concat (map snd (filter (\<lambda>(c', ms). c' = k) per_file))"
  have same: "filter (\<lambda>(c', ms). c' = c) per_file = filter (\<lambda>x. fst x = c) per_file"
    by (rule filter_cong) auto
  have "distinct keys"
    unfolding keys_def by simp
  then have one: "filter (\<lambda>k. k = c) keys = (if c \<in> set keys then [c] else [])"
    by (rule filter_eq_distinct)
  have "filter (\<lambda>x. fst x = c) (grouping per_file) = map (\<lambda>k. (k, ?G k)) (filter (\<lambda>k. k = c) keys)"
    by (simp add: grouping_def filter_map comp_def keys_def)
  then have "concat (map snd (filter (\<lambda>x. fst x = c) (grouping per_file))) =
      (if c \<in> set keys then ?G c else [])"
    unfolding one by simp
  moreover have "?G c = []" if "c \<notin> set keys"
    using that unfolding keys_def by (intro concat_no_functions) simp
  ultimately show ?thesis
    unfolding same by auto
qed

lemma map_of_grouping:
  "map_of (grouping per_file) c =
     (if c \<in> fst ` {x \<in> set per_file. snd x \<noteq> []}
      then Some (concat (map snd (filter (\<lambda>x. fst x = c) per_file))) else None)"
proof -
  have same: "filter (\<lambda>(c', ms). c' = c) per_file = filter (\<lambda>x. fst x = c) per_file"
    by (rule filter_cong) auto
  have "map_of (map (\<lambda>k. (k, g k)) ks) c = (if c \<in> set ks then Some (g c) else None)"
    for g :: "string \<Rightarrow> jni_method list" and ks
    by (induction ks) auto
  then have "map_of (grouping per_file) c =
      (if c \<in> set (first_seen (map fst (filter (\<lambda>(c, ms). ms \<noteq> []) per_file)))
       then Some (concat (map snd (filter (\<lambda>(c', ms). c' = c) per_file))) else None)"
    unfolding grouping_def by simp
  also have "set (first_seen (map fst (filter (\<lambda>(c, ms). ms \<noteq> []) per_file))) =
      fst ` {x \<in> set per_file. snd x \<noteq> []}"
    by (auto simp: case_prod_beta)
  finally show ?thesis
    unfolding same .
qed

text \<open>A grouping of the same files in another order.\<close>

lemma grouping_reordered:
  assumes "mset per_file' = mset per_file"
  shows "grouping per_file' = [] \<longleftrightarrow> grouping per_file = []"
    and "length (grouping per_file') = length (grouping per_file)"
    and "set (map fst (grouping per_file')) = set (map fst (grouping per_file))"
    and "map_option mset (map_of (grouping per_file') c) = map_option mset (map_of (grouping per_file) c)"
    and "length (concat (map snd per_file')) = length (concat (map snd per_file))"
proof -
  from assms have sets: "set per_file' = set per_file"
    by (rule mset_eq_setD)
  show "grouping per_file' = [] \<longleftrightarrow> grouping per_file = []"
    by (simp only: grouping_empty sets)
  show "length (grouping per_file') = length (grouping per_file)"
    by (simp only: grouping_length sets)
  show "set (map fst (grouping per_file')) = set (map fst (grouping per_file))"
    by (simp only: grouping_keys_set sets)
  have "mset (filter (\<lambda>x. fst x = c) per_file') = mset (filter (\<lambda>x. fst x = c) per_file)"
    using assms by simp
  then have "mset (concat (map snd (filter (\<lambda>x. fst x = c) per_file'))) =
      mset (concat (map snd (filter (\<lambda>x. fst x = c) per_file)))"
    by (rule mset_concat_map)
  then show "map_option mset (map_of (grouping per_file') c) =
      map_option mset (map_of (grouping per_file) c)"
    by (simp add: map_of_grouping sets)
  have "mset (concat (map snd per_file')) = mset (concat (map snd per_file))"
    using assms by (rule mset_concat_map)
  then show "length (concat (map snd per_file')) = length (concat (map snd per_file))"
    by (rule mset_eq_length)
qed

text \<open>The order of the scanner's set is read by the scanner alone.\<close>

lemma collect_hash_rank:
  "collect (e\<lparr>hash_rank := r\<rparr>) input_paths kotlin_files = collect e input_paths kotlin_files"
  by (induction input_paths arbitrary: kotlin_files) (simp_all add: resolve_input_def Let_def split: sum.splits)

lemma scan_file_hash_rank: "scan_file (e\<lparr>hash_rank := r\<rparr>) f = scan_file e f"
  by (simp add: scan_file_def)

lemma scanned_hash_rank: "scanned (e\<lparr>hash_rank := r\<rparr>) files = scanned e files"
  by (simp add: scanned_def scan_file_hash_rank)

lemma printed_in_hash_rank: "printed_in (e\<lparr>hash_rank := r\<rparr>) files = printed_in e files"
  by (simp add: printed_in_def scan_file_hash_rank)

lemma find_kotlin_files_reordered:
  "find_kotlin_files (e\<lparr>hash_rank := r\<rparr>) input_paths = Inl err \<longleftrightarrow>
     find_kotlin_files e input_paths = Inl err"
  "find_kotlin_files e input_paths = Inr files \<Longrightarrow>
   find_kotlin_files (e\<lparr>hash_rank := r\<rparr>) input_paths = Inr files' \<Longrightarrow> mset files' = mset files"
  by (auto simp: find_kotlin_files_def collect_hash_rank split: sum.splits)

text \<open>
  The run in closed form, from the list of files the scanner returns: when it raises, and
  what it returns, prints and writes otherwise.
\<close>

lemma total_methods:
  "sum_list (map (\<lambda>(c, ms). length ms) per_file) = length (concat (map snd per_file))"
  by (induction per_file) auto

lemma main_closed:
  "main e a =
     (case find_kotlin_files e (args_input a) of
        Inl err \<Rightarrow> Inl err
      | Inr files \<Rightarrow>
          if \<exists>f\<in>set files. isl (scan_file e f)
          then Inl (ReError ''look-behind requires fixed-width pattern'')
          else if grouping (scanned e files) \<noteq> [] \<and> \<not> open_w e (Path (arg_output a))
          then Inl OSError
          else Inr \<lparr>exit_code = (if files = [] then 1 else 0),
                    stdout =
                      (if files = [] then [NoKotlinFiles]
                       else printed_in e files @
                            [if grouping (scanned e files) = [] then NoNativeExports
                             else Generated (Path (arg_output a))
                                    (length (grouping (scanned e files)))
                                    (length (concat (map snd (scanned e files))))]),
                    written =
                      (if grouping (scanned e files) = [] then None
                       else Some (Path (arg_output a),
                                  generate_cpp_file (grouping (scanned e files))
                                    (arg_helper_class a)))\<rparr>)"
proof (cases "find_kotlin_files e (args_input a)")
  case (Inl err)
  then show ?thesis
    by (simp add: main_def)
next
  case (Inr files)
  have raises: "(\<exists>f\<in>set files. \<exists>err. scan_file e f = Inl err) \<longleftrightarrow>
      (\<exists>f\<in>set files. isl (scan_file e f))"
    by (simp add: isl_def)
  have none: "grouping (scanned e []) = []"
    by (simp add: scanned_def grouping_def first_seen_def)
  have total: "sum_list (map (\<lambda>(c, ms). length ms) (grouping (scanned e files))) =
      length (concat (map snd (scanned e files)))"
    using grouping_total [of "scanned e files"]
    by (simp only: total_methods)
  show ?thesis
  proof (cases "files = []")
    case True
    with Inr none show ?thesis
      by (simp add: main_def)
  next
    case False
    have "extract_native_exports e files =
        (if \<exists>f\<in>set files. isl (scan_file e f)
         then Inl (ReError ''look-behind requires fixed-width pattern'')
         else Inr (grouping (scanned e files), printed_in e files))"
      by (simp only: extract_native_exports_closed raises)
    with Inr False show ?thesis
      by (simp add: main_def total Let_def)
  qed
qed





end
